theory Spec2Isabelle
  imports Complex_Main "HOL-Library.Word" "HOL-Library.Log_Nat"
begin

section \<open>Data model of the memory allocation pass\<close>

text \<open>
  The development follows \<^verbatim>\<open>lib/Analysis/MemoryAllocation.cpp\<close>.
  \<^verbatim>\<open>size_t\<close> and \<^verbatim>\<open>uint64_t\<close> are 64-bit unsigned machine integers
  (LP64): addition wraps around and \<open><\<close> compares unsigned values.
\<close>

type_synonym size_t = "64 word"

text \<open>
  Modelled from the spec: the class \<^verbatim>\<open>LiveInterval\<close> is declared in
  \<^verbatim>\<open>onnc/Analysis/LivenessAnalysis.h\<close>, which is not among the sources.
  It is the triple (value, start, end) of the data model; the accessors of the
  source are \<^verbatim>\<open>getValue()\<close>, \<^verbatim>\<open>getStart()\<close> and \<^verbatim>\<open>getEnd()\<close>.
\<close>

record 'v LiveInterval =
  getValue :: 'v
  getStart :: nat
  getEnd :: nat

text \<open>
  Modelled from the spec: \<^verbatim>\<open>LiveInterval::intersect\<close> is missing with its class.
  Two intervals intersect iff their ranges \<open>[start, end]\<close> overlap, endpoints
  inclusive.
\<close>

definition intersect :: "'v LiveInterval \<Rightarrow> 'v LiveInterval \<Rightarrow> bool" where
  "intersect a b \<longleftrightarrow> \<not> (getEnd a < getStart b \<or> getEnd b < getStart a)"

text \<open>\<^verbatim>\<open>struct MemRegion { size_t start, size; }\<close>\<close>

record MemRegion =
  start :: size_t
  size_r :: size_t

text \<open>
  \<^verbatim>\<open>MemAllocEntry(startAddr, size, liveIntrvl)\<close>, built at line 105 and read
  at lines 51 and 56.
\<close>

record 'v MemAllocEntry =
  startAddr :: size_t
  size_e :: size_t
  liveIntrvl :: "'v LiveInterval"

type_synonym 'v MemAllocList = "'v MemAllocEntry list"

text \<open>
  \<^verbatim>\<open>ValMemSizeMap\<close> maps a value to its memory requirement; the allocator reads
  \<^verbatim>\<open>count(v)\<close> and the field \<^verbatim>\<open>size\<close> of the mapped record only.
\<close>

type_synonym 'v ValMemSizeMap = "'v \<rightharpoonup> size_t"

section \<open>The allocator\<close>

text \<open>
  \<^verbatim>\<open>GetUsedMemRegions\<close>: the regions of the entries whose live interval
  intersects \<open>pIntrvl\<close>, sorted by starting address. \<^verbatim>\<open>std::sort\<close> is not a
  stable sort: the source does not fix the order it gives to regions of equal
  starting address, and on longer lists that order need not be the order in
  \<open>pAllocs\<close>. The model sorts by insertion, which keeps regions of equal starting
  address in their order in \<open>pAllocs\<close>. Where the starting addresses are distinct
  the list sorted by them is the only one (lemma \<open>sorted_by_start_unique\<close>), so
  every sort returns the list of the model; the evaluations below meet only such
  lists.
\<close>

definition GetUsedMemRegions :: "'v MemAllocList \<Rightarrow> 'v LiveInterval \<Rightarrow> MemRegion list" where
  "GetUsedMemRegions pAllocs pIntrvl =
     sort_key start
       (map (\<lambda>entry. \<lparr>start = startAddr entry, size_r = size_e entry\<rparr>)
          (filter (\<lambda>entry. intersect (liveIntrvl entry) pIntrvl) pAllocs))"

definition HasConflict :: "size_t \<Rightarrow> size_t \<Rightarrow> size_t \<Rightarrow> size_t \<Rightarrow> bool" where
  "HasConflict pStartA pSizeA pStartB pSizeB =
     (let endA = pStartA + pSizeA; endB = pStartB + pSizeB
      in \<not> (endA \<le> pStartB \<or> endB \<le> pStartA))"

text \<open>
  The scan of lines 98 to 102: \<open>scanConflicts conflicts required addr\<close> is the
  value of the local \<^verbatim>\<open>startAddr\<close>, entered as \<open>addr\<close>, when the \<^verbatim>\<open>for\<close> loop over \<open>conflicts\<close> is left,
  by \<^verbatim>\<open>break\<close> or at the end of the list.
\<close>

fun scanConflicts :: "MemRegion list \<Rightarrow> size_t \<Rightarrow> size_t \<Rightarrow> size_t" where
  "scanConflicts [] required addr = addr"
| "scanConflicts (reg # conflicts) required addr =
     (if \<not> HasConflict (start reg) (size_r reg) addr required then addr
      else scanConflicts conflicts required (start reg + size_r reg))"

text \<open>
  The body of the loop over the live intervals (lines 87 to 108), on the pair of
  \<open>m_MemAllocList\<close> and \<open>minSize\<close>.
\<close>

definition allocOne ::
  "'v ValMemSizeMap \<Rightarrow> 'v LiveInterval \<Rightarrow> 'v MemAllocList \<times> size_t \<Rightarrow> 'v MemAllocList \<times> size_t" where
  "allocOne pValMemSizeMap li st =
     (case pValMemSizeMap (getValue li) of
        None \<Rightarrow> st
      | Some required \<Rightarrow>
          (let (allocs, minSize) = st;
               conflicts = GetUsedMemRegions allocs li;
               addr = scanConflicts conflicts required 0
           in (allocs @ [\<lparr>startAddr = addr, size_e = required, liveIntrvl = li\<rparr>],
               max minSize (addr + required))))"

fun allocLoop ::
  "'v ValMemSizeMap \<Rightarrow> 'v LiveInterval list \<Rightarrow> 'v MemAllocList \<times> size_t \<Rightarrow> 'v MemAllocList \<times> size_t" where
  "allocLoop pValMemSizeMap [] st = st"
| "allocLoop pValMemSizeMap (li # livesInfo) st =
     allocLoop pValMemSizeMap livesInfo (allocOne pValMemSizeMap li st)"

text \<open>\<^verbatim>\<open>MemoryAllocation::clear\<close> empties the entry list.\<close>

definition clear :: "'v MemAllocList \<Rightarrow> 'v MemAllocList" where
  "clear m_MemAllocList = []"

text \<open>
  \<^verbatim>\<open>MemoryAllocation::allocByLiveness\<close>. The member \<open>m_MemAllocList\<close> is passed in
  and returned; \<open>livesInfo\<close> is what \<^verbatim>\<open>liveAnaly->getLiveIntervals()\<close> returns.
  The result is the new entry list and the returned \<open>minSize\<close>.
\<close>

definition allocByLiveness ::
  "'v LiveInterval list \<Rightarrow> 'v MemAllocList \<Rightarrow> 'v ValMemSizeMap \<Rightarrow> 'v MemAllocList \<times> size_t" where
  "allocByLiveness livesInfo m_MemAllocList pValMemSizeMap =
     allocLoop pValMemSizeMap livesInfo (clear m_MemAllocList, 0)"

section \<open>Single-precision arithmetic of the shrink test\<close>

text \<open>
  Line 156 computes \<^verbatim>\<open>(float)minSize / prevMinSize > threshold\<close> in the type
  \<^verbatim>\<open>float\<close>. A finite \<^verbatim>\<open>float\<close> is a rational number, and every operation
  returns the exact result rounded to the nearest number with a significand of 24
  bits, ties to the even significand (IEEE 754 binary32, each operation rounded to
  \<^verbatim>\<open>float\<close>, as with SSE arithmetic on x86-64). The operands met here are 64-bit integers and quotients of two of
  them that are not zero, so the exponent stays within the range of the format
  and neither infinities nor subnormal numbers arise.
\<close>

definition roundHalfEven :: "rat \<Rightarrow> int" where
  "roundHalfEven x =
     (let f = \<lfloor>x\<rfloor>; d = x - of_int f
      in if d < 1 / 2 then f else if 1 / 2 < d then f + 1 else if even f then f else f + 1)"

text \<open>\<open>floorLog2 x\<close> is the exponent \<open>e\<close> with \<open>2^e \<le> x < 2^(e+1)\<close>, for \<open>x > 0\<close>.\<close>

definition floorLog2 :: "rat \<Rightarrow> int" where
  "floorLog2 x =
     (let (a, b) = quotient_of x; k = bitlen a - bitlen b
      in if 2 powi k \<le> x then k else k - 1)"

definition toFloat :: "rat \<Rightarrow> rat" where
  "toFloat x =
     (if x = 0 then 0
      else let u = 2 powi (floorLog2 \<bar>x\<bar> - 23)
           in of_int (roundHalfEven (x / u)) * u)"

text \<open>\<^verbatim>\<open>const float threshold = 0.9f\<close>\<close>

definition threshold :: rat where
  "threshold = toFloat (9 / 10)"

text \<open>
  \<^verbatim>\<open>(float)minSize / prevMinSize > threshold\<close>, with \<open>minSize\<close> of type
  \<^verbatim>\<open>uint64_t\<close> and \<open>prevMinSize\<close> of type \<^verbatim>\<open>int64_t\<close>: both are converted to
  \<^verbatim>\<open>float\<close>, then divided. The caller has checked that \<open>prevMinSize\<close> is not 0.
\<close>

definition ratioAboveThreshold :: "64 word \<Rightarrow> 64 word \<Rightarrow> bool" where
  "ratioAboveThreshold minSize prevMinSize \<longleftrightarrow>
     threshold < toFloat (toFloat (of_nat (unat minSize)) / toFloat (of_int (sint prevMinSize)))"

section \<open>The pass\<close>

text \<open>The two values of \<^verbatim>\<open>Pass::ReturnType\<close> that the pass returns.\<close>

datatype ReturnType = kModuleNoChanged | kPassFailure

text \<open>
  The backend, read through \<^verbatim>\<open>m_DLATB->getMemInfo()->getLocalMemSize()\<close> only.
  A null \<open>m_DLATB\<close> is \<open>None\<close>.
\<close>

record DLATargetBackend =
  getLocalMemSize :: "64 word"

text \<open>What the pass writes to \<^verbatim>\<open>errs()\<close> and \<^verbatim>\<open>outs()\<close>.\<close>

datatype message =
    NoBackendInformation
  | AllocateOrShrinkSize
  | ShrinkArrowKb rat
  | UnableToAllocate
  | NewLine
  | SplitGraphDump

text \<open>
  The collaborators of the pass are not among the sources: the scheduler, the
  liveness analysis, the split graphs and their manager. They are parameters of the
  model. They act on a store \<open>'w\<close> (the module with its graph, the analyses and the
  manager's split graphs); \<open>'p\<close> is the type of the pointers \<^verbatim>\<open>SplitGraph*\<close>, so
  that what an operation on one split graph does to another one is left to the
  parameter.
\<close>

record ('w, 'p, 'v) Collaborators =
  scheduler_runOnModule :: "'w \<Rightarrow> 'w"
  liveAnaly_runOnModule :: "'w \<Rightarrow> 'w"
  getLiveIntervals :: "'w \<Rightarrow> 'v LiveInterval list"
  newSplitGraphManager :: "DLATargetBackend \<Rightarrow> 'w \<Rightarrow> 'w"
  getSplitGraphs :: "'w \<Rightarrow> 'p list"
  getMemUsage :: "'p \<Rightarrow> 'w \<Rightarrow> 'v ValMemSizeMap"
  shrinkSize :: "'p \<Rightarrow> 'w \<Rightarrow> 'w"
  resetToOrigSize :: "'p \<Rightarrow> 'w \<Rightarrow> 'w"
  splitNewSubGraph :: "'p \<Rightarrow> 'w \<Rightarrow> 'p option \<times> 'w"

text \<open>The state the pass works on: its member, the store, the two streams.\<close>

record ('w, 'v) PassState =
  m_MemAllocList :: "'v MemAllocList"
  world :: 'w
  errs :: "message list"
  outs :: "message list"

text \<open>
  One iteration of the loop \<^verbatim>\<open>while (true)\<close> of lines 140 to 175 ends in one of
  three ways: the \<^verbatim>\<open>break\<close> of line 152, the \<^verbatim>\<open>break\<close> of line 168, or the next
  iteration (by the \<^verbatim>\<open>continue\<close> of line 164 or at the end of the body), entered
  with the new \<open>worklist\<close> and \<open>prevMinSize\<close>. The sum \<open>maxSize\<close> of lines 145
  to 147 is never read and is left out.
\<close>

datatype ('s, 'p) Flow =
    Accepted 's
  | Abandoned 's
  | Continue 's "'p list" "64 word"

definition planIteration ::
  "('w, 'p, 'v) Collaborators \<Rightarrow> 64 word \<Rightarrow> 'p \<Rightarrow> ('w, 'v) PassState \<Rightarrow> 'p list \<Rightarrow> 64 word
     \<Rightarrow> (('w, 'v) PassState, 'p) Flow" where
  "planIteration C localMemSize spGraph s worklist prevMinSize =
     (let valMemSMap = getMemUsage C spGraph (world s);
          (allocs, minSize) =
             allocByLiveness (getLiveIntervals C (world s)) (m_MemAllocList s) valMemSMap;
          s1 = s\<lparr>m_MemAllocList := allocs\<rparr>
      in if minSize < localMemSize then Accepted s1
         else if prevMinSize \<noteq> 0 \<and> ratioAboveThreshold minSize prevMinSize then
           (let w1 = resetToOrigSize C spGraph (world s1);
                (newSpGraph, w2) = splitNewSubGraph C spGraph w1;
                s2 = s1\<lparr>world := w2\<rparr>
            in case newSpGraph of
                 Some g \<Rightarrow> Continue s2 (worklist @ [g]) 0
               | None \<Rightarrow> Abandoned (s2\<lparr>errs := errs s2 @ [UnableToAllocate]\<rparr>))
         else
           Continue
             (s1\<lparr>errs := errs s1 @ [ShrinkArrowKb (toFloat (toFloat (of_int (sint minSize)) / 1024))],
                 world := shrinkSize C spGraph (world s1)\<rparr>)
             worklist minSize)"

text \<open>
  The loop \<^verbatim>\<open>while (true)\<close> itself. It has no bound in the source, so its model
  is a partial function: \<open>None\<close> is the loop that never ends. The result tells
  which \<^verbatim>\<open>break\<close> ended the loop, with the state and the worklist at that point.
\<close>

datatype Outcome = Fits | Unallocated

partial_function (option) planSubGraph ::
  "('w, 'p, 'v) Collaborators \<Rightarrow> 64 word \<Rightarrow> 'p \<Rightarrow> ('w, 'v) PassState \<Rightarrow> 'p list \<Rightarrow> 64 word
     \<Rightarrow> (Outcome \<times> ('w, 'v) PassState \<times> 'p list) option" where
  "planSubGraph C localMemSize spGraph s worklist prevMinSize =
     (case planIteration C localMemSize spGraph s worklist prevMinSize of
        Accepted s' \<Rightarrow> Some (Fits, s', worklist)
      | Abandoned s' \<Rightarrow> Some (Unallocated, s', worklist)
      | Continue s' worklist' prevMinSize' \<Rightarrow>
          planSubGraph C localMemSize spGraph s' worklist' prevMinSize')"

text \<open>
  The loop over the worklist, lines 132 to 177: the last split graph is taken off
  the worklist and planned with \<open>prevMinSize = 0\<close>.
\<close>

partial_function (option) processWorklist ::
  "('w, 'p, 'v) Collaborators \<Rightarrow> 64 word \<Rightarrow> ('w, 'v) PassState \<Rightarrow> 'p list
     \<Rightarrow> ('w, 'v) PassState option" where
  "processWorklist C localMemSize s worklist =
     (if worklist = [] then Some s
      else
        (let spGraph = last worklist;
             s1 = s\<lparr>errs := errs s @ [AllocateOrShrinkSize]\<rparr>
         in case planSubGraph C localMemSize spGraph s1 (butlast worklist) 0 of
              None \<Rightarrow> None
            | Some (outcome, s2, worklist') \<Rightarrow>
                processWorklist C localMemSize (s2\<lparr>outs := outs s2 @ [NewLine]\<rparr>) worklist'))"

text \<open>
  \<^verbatim>\<open>MemoryAllocation::runOnModule\<close>, with the member \<open>m_DLATB\<close> as an argument.
\<close>

definition runOnModule ::
  "('w, 'p, 'v) Collaborators \<Rightarrow> DLATargetBackend option \<Rightarrow> ('w, 'v) PassState
     \<Rightarrow> (ReturnType \<times> ('w, 'v) PassState) option" where
  "runOnModule C m_DLATB s =
     (case m_DLATB of
        None \<Rightarrow> Some (kPassFailure, s\<lparr>errs := errs s @ [NoBackendInformation]\<rparr>)
      | Some backend \<Rightarrow>
          (let w1 = scheduler_runOnModule C (world s);
               w2 = liveAnaly_runOnModule C w1;
               w3 = newSplitGraphManager C backend w2;
               s1 = s\<lparr>m_MemAllocList := clear (m_MemAllocList s), world := w3\<rparr>;
               localMemSize = getLocalMemSize backend
           in case processWorklist C localMemSize s1 (getSplitGraphs C w3) of
                None \<Rightarrow> None
              | Some s2 \<Rightarrow> Some (kModuleNoChanged, s2\<lparr>outs := outs s2 @ [SplitGraphDump]\<rparr>)))"

section \<open>Definitions used by the statements\<close>

text \<open>The end \<open>startAddr + size\<close> of an entry, as line 107 computes it.\<close>

definition entryEnd :: "'v MemAllocEntry \<Rightarrow> size_t" where
  "entryEnd e = startAddr e + size_e e"

text \<open>
  Two entries occupy a common address: the half-open ranges \<open>[start, start + size)\<close>
  meet, the ends taken as natural numbers.
\<close>

definition rangesOverlap :: "'v MemAllocEntry \<Rightarrow> 'v MemAllocEntry \<Rightarrow> bool" where
  "rangesOverlap a b \<longleftrightarrow>
     unat (startAddr a) < unat (startAddr b) + unat (size_e b) \<and>
     unat (startAddr b) < unat (startAddr a) + unat (size_e a)"

text \<open>
  The claimed invariant of the entry list: two entries (at different positions)
  whose live intervals intersect do not overlap.
\<close>

definition liveDisjoint :: "'v MemAllocList \<Rightarrow> bool" where
  "liveDisjoint allocs \<longleftrightarrow>
     sorted_wrt (\<lambda>a b. intersect (liveIntrvl a) (liveIntrvl b) \<longrightarrow> \<not> rangesOverlap a b) allocs"

text \<open>
  A region as a range of natural numbers, the region of an entry (line 56), and
  two regions that do not overlap.
\<close>

definition regStart :: "MemRegion \<Rightarrow> nat" where
  "regStart r = unat (start r)"

definition regEnd :: "MemRegion \<Rightarrow> nat" where
  "regEnd r = unat (start r) + unat (size_r r)"

definition regionOf :: "'v MemAllocEntry \<Rightarrow> MemRegion" where
  "regionOf e = \<lparr>start = startAddr e, size_r = size_e e\<rparr>"

definition regionsApart :: "MemRegion \<Rightarrow> MemRegion \<Rightarrow> bool" where
  "regionsApart r r' \<longleftrightarrow> \<not> (regStart r < regEnd r' \<and> regStart r' < regEnd r)"

text \<open>The sum of the sizes the map requires for the values of the live intervals.\<close>

definition requiredTotal :: "'v ValMemSizeMap \<Rightarrow> 'v LiveInterval list \<Rightarrow> nat" where
  "requiredTotal m lives =
     sum_list (map (\<lambda>li. case m (getValue li) of None \<Rightarrow> 0 | Some z \<Rightarrow> unat z) lives)"

text \<open>
  What line 150 computes for the split graph \<open>spGraph\<close> in the store \<open>w\<close>: the
  size \<open>minSize\<close> and the entries. Both are independent of the entries the pass
  held before, which \<open>allocByLiveness\<close> clears.
\<close>

definition allocatedPeak :: "('w, 'p, 'v) Collaborators \<Rightarrow> 'p \<Rightarrow> 'w \<Rightarrow> 64 word" where
  "allocatedPeak C spGraph w =
     snd (allocByLiveness (getLiveIntervals C w) [] (getMemUsage C spGraph w))"

definition allocatedEntries :: "('w, 'p, 'v) Collaborators \<Rightarrow> 'p \<Rightarrow> 'w \<Rightarrow> 'v MemAllocList" where
  "allocatedEntries C spGraph w =
     fst (allocByLiveness (getLiveIntervals C w) [] (getMemUsage C spGraph w))"

text \<open>
  The condition under which an iteration reaches line 157: the allocation does not
  fit, and the test of line 156 holds.
\<close>

definition splitRequired ::
  "('w, 'p, 'v) Collaborators \<Rightarrow> 64 word \<Rightarrow> 'p \<Rightarrow> 'w \<Rightarrow> 64 word \<Rightarrow> bool" where
  "splitRequired C localMemSize spGraph w prevMinSize \<longleftrightarrow>
     \<not> allocatedPeak C spGraph w < localMemSize \<and> prevMinSize \<noteq> 0 \<and>
     ratioAboveThreshold (allocatedPeak C spGraph w) prevMinSize"

text \<open>
  The test on the two sizes as they are: each is converted to \<^verbatim>\<open>float\<close>, the
  quotient is taken in \<^verbatim>\<open>float\<close> and compared with \<open>threshold\<close>. For a
  \<open>prevMinSize\<close> below \<open>2^63\<close> this is the test of line 156.
\<close>

definition floatRatioAbove :: "64 word \<Rightarrow> 64 word \<Rightarrow> bool" where
  "floatRatioAbove minSize prevMinSize \<longleftrightarrow>
     threshold < toFloat (toFloat (of_nat (unat minSize)) / toFloat (of_nat (unat prevMinSize)))"

text \<open>
  Conditions under which every planner loop and the worklist loop come to an end.
  On the stores that satisfy \<open>Inv\<close>, which \<open>shrinkSize\<close> and a split after a
  reset keep: the allocated size of every split graph is below \<open>2^63\<close>;
  \<open>shrinkSize\<close> lowers the measure \<open>steps\<close> of its split graph or leaves the
  memory usage and the live intervals as they are (the floor is reached), and it
  does not raise the measure \<open>parts\<close>; a split after a reset lowers \<open>parts\<close>
  when it returns a new split graph and does not raise it when it returns none.
\<close>

definition shrinkAndSplitWellFounded ::
  "('w, 'p, 'v) Collaborators \<Rightarrow> ('w \<Rightarrow> bool) \<Rightarrow> ('p \<Rightarrow> 'w \<Rightarrow> nat) \<Rightarrow> ('w \<Rightarrow> nat) \<Rightarrow> bool" where
  "shrinkAndSplitWellFounded C Inv steps parts \<longleftrightarrow>
     (\<forall>p w. Inv w \<longrightarrow>
        Inv (shrinkSize C p w) \<and>
        Inv (snd (splitNewSubGraph C p (resetToOrigSize C p w))) \<and>
        allocatedPeak C p w < 9223372036854775808 \<and>
        (steps p (shrinkSize C p w) < steps p w \<or>
         getMemUsage C p (shrinkSize C p w) = getMemUsage C p w \<and>
         getLiveIntervals C (shrinkSize C p w) = getLiveIntervals C w) \<and>
        parts (shrinkSize C p w) \<le> parts w \<and>
        (case splitNewSubGraph C p (resetToOrigSize C p w) of
           (Some g, w') \<Rightarrow> parts w' < parts w
         | (None, w') \<Rightarrow> parts w' \<le> parts w))"

section \<open>Concrete inputs\<close>

text \<open>
  Five values and their live intervals, in the order the allocator receives them.
  The sizes are positive and every value has its interval.
\<close>

datatype ExValue = TensorP | TensorQ | TensorR | TensorS | TensorX

definition overlapLives :: "ExValue LiveInterval list" where
  "overlapLives =
     [\<lparr>getValue = TensorP, getStart = 0, getEnd = 1\<rparr>,
      \<lparr>getValue = TensorQ, getStart = 1, getEnd = 2\<rparr>,
      \<lparr>getValue = TensorR, getStart = 3, getEnd = 4\<rparr>,
      \<lparr>getValue = TensorS, getStart = 4, getEnd = 5\<rparr>,
      \<lparr>getValue = TensorX, getStart = 2, getEnd = 4\<rparr>]"

definition overlapSizes :: "ExValue ValMemSizeMap" where
  "overlapSizes =
     [TensorP \<mapsto> 10, TensorQ \<mapsto> 10, TensorR \<mapsto> 100, TensorS \<mapsto> 100, TensorX \<mapsto> 5]"

text \<open>
  Three values whose live intervals arrive in ascending order of start: sizes 10, 20
  and 10, live over \<open>[0, 2]\<close>, \<open>[1, 3]\<close> and \<open>[3, 4]\<close>.
\<close>

definition simpleFitLives :: "ExValue LiveInterval list" where
  "simpleFitLives =
     [\<lparr>getValue = TensorP, getStart = 0, getEnd = 2\<rparr>,
      \<lparr>getValue = TensorQ, getStart = 1, getEnd = 3\<rparr>,
      \<lparr>getValue = TensorR, getStart = 3, getEnd = 4\<rparr>]"

definition simpleFitSizes :: "ExValue ValMemSizeMap" where
  "simpleFitSizes = [TensorP \<mapsto> 10, TensorQ \<mapsto> 20, TensorR \<mapsto> 10]"

text \<open>
  Collaborators for three split graphs, each holding one value, named as its
  graph. The store keeps the current and the original size of each value and the
  calls made on it. Shrinking halves a size unless that would take it below 600;
  a split graph of original size 2000 or more splits once, in halves, the new
  split graph being \<open>GraphC\<close>.
\<close>

datatype ExGraph = GraphA | GraphB | GraphC

datatype call =
    Scheduled
  | LivenessComputed
  | ManagerBuilt
  | Shrunk ExGraph
  | Reset ExGraph
  | SplitAsked ExGraph

record ExWorld =
  curSize :: "ExGraph \<Rightarrow> size_t"
  origSize :: "ExGraph \<Rightarrow> size_t"
  calls :: "call list"

definition exC :: "(ExWorld, ExGraph, ExGraph) Collaborators" where
  "exC = \<lparr>
     scheduler_runOnModule = (\<lambda>w. w\<lparr>calls := calls w @ [Scheduled]\<rparr>),
     liveAnaly_runOnModule = (\<lambda>w. w\<lparr>calls := calls w @ [LivenessComputed]\<rparr>),
     getLiveIntervals = (\<lambda>w. [\<lparr>getValue = GraphA, getStart = 0, getEnd = 0\<rparr>,
                              \<lparr>getValue = GraphB, getStart = 1, getEnd = 1\<rparr>,
                              \<lparr>getValue = GraphC, getStart = 2, getEnd = 2\<rparr>]),
     newSplitGraphManager = (\<lambda>b w. w\<lparr>calls := calls w @ [ManagerBuilt]\<rparr>),
     getSplitGraphs = (\<lambda>w. [GraphA, GraphB]),
     getMemUsage = (\<lambda>p w. [p \<mapsto> curSize w p]),
     shrinkSize = (\<lambda>p w.
        w\<lparr>curSize := (curSize w)
               (p := if 600 \<le> curSize w p div 2 then curSize w p div 2 else curSize w p),
          calls := calls w @ [Shrunk p]\<rparr>),
     resetToOrigSize = (\<lambda>p w.
        w\<lparr>curSize := (curSize w)(p := origSize w p), calls := calls w @ [Reset p]\<rparr>),
     splitNewSubGraph = (\<lambda>p w.
        if 2000 \<le> origSize w p
        then (Some GraphC,
              w\<lparr>curSize := (curSize w)(p := origSize w p div 2, GraphC := origSize w p div 2),
                origSize := (origSize w)(p := origSize w p div 2, GraphC := origSize w p div 2),
                calls := calls w @ [SplitAsked p]\<rparr>)
        else (None, w\<lparr>calls := calls w @ [SplitAsked p]\<rparr>))\<rparr>"

text \<open>
  The store in which \<open>GraphB\<close> has the current size \<open>c1\<close> and the original size
  \<open>o1\<close>, the other split graphs the size 100, and the pass state on it.
\<close>

definition exWorld :: "size_t \<Rightarrow> size_t \<Rightarrow> ExWorld" where
  "exWorld c1 o1 =
     \<lparr>curSize = (\<lambda>_. 100)(GraphB := c1), origSize = (\<lambda>_. 100)(GraphB := o1), calls = []\<rparr>"

definition exState :: "size_t \<Rightarrow> size_t \<Rightarrow> (ExWorld, ExGraph) PassState" where
  "exState c1 o1 = \<lparr>m_MemAllocList = [], world = exWorld c1 o1, errs = [], outs = []\<rparr>"

text \<open>The stores reached from \<open>exState 2000 2000\<close> while \<open>GraphB\<close> is planned.\<close>

definition exInv :: "ExWorld \<Rightarrow> bool" where
  "exInv w \<longleftrightarrow> curSize w GraphB \<le> 2000 \<and> origSize w GraphB \<le> 2000"

text \<open>
  For the collaborators \<open>exC\<close>: the stores in which no size is above 2000, the
  current size of a split graph as the measure of its shrinking, and the number of
  split graphs that can still be split.
\<close>

definition exSizesBounded :: "ExWorld \<Rightarrow> bool" where
  "exSizesBounded w \<longleftrightarrow>
     curSize w GraphA \<le> 2000 \<and> curSize w GraphB \<le> 2000 \<and> curSize w GraphC \<le> 2000 \<and>
     origSize w GraphA \<le> 2000 \<and> origSize w GraphB \<le> 2000 \<and> origSize w GraphC \<le> 2000"

definition exSteps :: "ExGraph \<Rightarrow> ExWorld \<Rightarrow> nat" where
  "exSteps p w = unat (curSize w p)"

definition exUnsplit :: "ExWorld \<Rightarrow> nat" where
  "exUnsplit w =
     (if 2000 \<le> origSize w GraphA then 1 else 0) +
     (if 2000 \<le> origSize w GraphB then 1 else 0) +
     (if 2000 \<le> origSize w GraphC then 1 else 0)"

text \<open>
  Collaborators for one split graph with one value of \<open>2^63\<close> bytes, which
  shrinking leaves as it is and which cannot be split.
\<close>

definition hugeC :: "(unit, unit, unit) Collaborators" where
  "hugeC = \<lparr>
     scheduler_runOnModule = (\<lambda>w. w),
     liveAnaly_runOnModule = (\<lambda>w. w),
     getLiveIntervals = (\<lambda>w. [\<lparr>getValue = (), getStart = 0, getEnd = 0\<rparr>]),
     newSplitGraphManager = (\<lambda>b w. w),
     getSplitGraphs = (\<lambda>w. [()]),
     getMemUsage = (\<lambda>p w. [() \<mapsto> 9223372036854775808]),
     shrinkSize = (\<lambda>p w. w),
     resetToOrigSize = (\<lambda>p w. w),
     splitNewSubGraph = (\<lambda>p w. (None, w))\<rparr>"

definition emptyState :: "'w \<Rightarrow> ('w, 'v) PassState" where
  "emptyState w = \<lparr>m_MemAllocList = [], world = w, errs = [], outs = []\<rparr>"

section \<open>The allocator: peak, skipped intervals, independence of history\<close>

lemma sorted_by_start_unique:
  assumes "set ys = set xs" and "length ys = length xs"
      and "sorted (map start ys)" and "distinct (map start xs)"
  shows "ys = sort_key start xs"
proof -
  have dx: "distinct xs" and inj: "inj_on start (set xs)"
    using assms(4) by (simp_all add: distinct_map)
  have "card (set ys) = length ys"
    using assms(1,2) distinct_card [OF dx] by simp
  then have dy: "distinct ys" by (rule card_distinct)
  have 1: "distinct (map start ys)"
    using dy inj assms(1) by (simp add: distinct_map)
  have 2: "distinct (map start (sort_key start xs))"
    using dx inj by (simp add: distinct_map)
  have 3: "set (map start ys) = set (map start (sort_key start xs))"
    using assms(1) by simp
  have "map start ys = map start (sort_key start xs)"
    by (rule sorted_distinct_set_unique [OF assms(3) 1 _ 2 3]) simp
  moreover have "inj_on start (set ys \<union> set (sort_key start xs))"
    using inj assms(1) by simp
  ultimately show ?thesis by (simp add: inj_on_map_eq_map)
qed

lemma Max_insert_end:
  fixes x :: size_t
  assumes "finite S"
  shows "Max (insert 0 (insert x S)) = max (Max (insert 0 S)) x"
proof -
  have "Max (insert x (insert 0 S)) = max x (Max (insert 0 S))"
    by (rule Max_insert) (use assms in simp_all)
  then show ?thesis
    by (simp only: insert_commute max.commute)
qed

lemma allocOne_peak:
  assumes "snd st = Max (insert 0 (entryEnd ` set (fst st)))"
  shows "snd (allocOne m li st) = Max (insert 0 (entryEnd ` set (fst (allocOne m li st))))"
proof (cases "m (getValue li)")
  case None
  then show ?thesis using assms by (simp add: allocOne_def)
next
  case (Some required)
  obtain allocs minSize where st: "st = (allocs, minSize)" by (cases st)
  define e where "e = \<lparr>startAddr = scanConflicts (GetUsedMemRegions allocs li) required 0,
    size_e = required, liveIntrvl = li\<rparr>"
  have res: "allocOne m li st = (allocs @ [e], max minSize (entryEnd e))"
    using Some st by (simp add: allocOne_def Let_def e_def entryEnd_def)
  have "entryEnd ` set (allocs @ [e]) = insert (entryEnd e) (entryEnd ` set allocs)"
    by simp
  then have "Max (insert 0 (entryEnd ` set (allocs @ [e]))) =
      max (Max (insert 0 (entryEnd ` set allocs))) (entryEnd e)"
    by (simp only: Max_insert_end [OF finite_imageI [OF finite_set]])
  then show ?thesis
    using assms st res by simp
qed

lemma allocLoop_peak:
  "snd st = Max (insert 0 (entryEnd ` set (fst st))) \<Longrightarrow>
   snd (allocLoop m lives st) = Max (insert 0 (entryEnd ` set (fst (allocLoop m lives st))))"
  by (induction lives arbitrary: st) (simp_all add: allocOne_peak)

lemma allocByLiveness_peak:
  "snd (allocByLiveness lives old m) =
     Max (insert 0 (entryEnd ` set (fst (allocByLiveness lives old m))))"
  unfolding allocByLiveness_def by (rule allocLoop_peak) (simp add: clear_def)

lemma planIteration_Accepted_iff:
  "planIteration C localMemSize spGraph s worklist prevMinSize = Accepted s' \<longleftrightarrow>
     snd (allocByLiveness (getLiveIntervals C (world s)) (m_MemAllocList s)
            (getMemUsage C spGraph (world s))) < localMemSize \<and>
     s' = s\<lparr>m_MemAllocList :=
             fst (allocByLiveness (getLiveIntervals C (world s)) (m_MemAllocList s)
                    (getMemUsage C spGraph (world s)))\<rparr>"
proof -
  obtain allocs minSize where a:
    "allocByLiveness (getLiveIntervals C (world s)) (m_MemAllocList s)
       (getMemUsage C spGraph (world s)) = (allocs, minSize)"
    by (cases "allocByLiveness (getLiveIntervals C (world s)) (m_MemAllocList s)
       (getMemUsage C spGraph (world s))")
  obtain newSpGraph w2 where b:
    "splitNewSubGraph C spGraph (resetToOrigSize C spGraph (world s)) = (newSpGraph, w2)"
    by (cases "splitNewSubGraph C spGraph (resetToOrigSize C spGraph (world s))")
  show ?thesis
    by (cases newSpGraph) (auto simp: planIteration_def Let_def a b)
qed

text \<open>
  Claim C4. The size \<open>allocByLiveness\<close> returns is the greatest \<open>startAddr + size\<close>
  of the entries it has built (0 when there is none; the sum is the 64-bit sum of
  line 107). An iteration of the planner leaves the loop with this placement
  exactly when the returned size is strictly below the local memory size.
\<close>

theorem peak_is_max_end_and_accepted_iff_below_budget:
  "snd (allocByLiveness livesInfo old pValMemSizeMap) =
     Max (insert 0 (entryEnd ` set (fst (allocByLiveness livesInfo old pValMemSizeMap))))
   \<and> (planIteration C localMemSize spGraph s worklist prevMinSize = Accepted s' \<longleftrightarrow>
        snd (allocByLiveness (getLiveIntervals C (world s)) (m_MemAllocList s)
               (getMemUsage C spGraph (world s))) < localMemSize \<and>
        s' = s\<lparr>m_MemAllocList :=
                fst (allocByLiveness (getLiveIntervals C (world s)) (m_MemAllocList s)
                       (getMemUsage C spGraph (world s)))\<rparr>)"
  by (rule conjI [OF allocByLiveness_peak planIteration_Accepted_iff])

lemma allocOne_unmapped: "m (getValue li) = None \<Longrightarrow> allocOne m li st = st"
  by (simp add: allocOne_def)

lemma allocLoop_filter:
  "allocLoop m lives st = allocLoop m (filter (\<lambda>li. getValue li \<in> dom m) lives) st"
  by (induction lives arbitrary: st) (auto simp: allocOne_unmapped domIff)

lemma allocOne_intervals:
  "map liveIntrvl (fst (allocOne m li st)) =
     map liveIntrvl (fst st) @ (if getValue li \<in> dom m then [li] else [])"
  by (cases st) (auto simp: allocOne_def Let_def domIff split: option.splits)

lemma allocLoop_intervals:
  "map liveIntrvl (fst (allocLoop m lives st)) =
     map liveIntrvl (fst st) @ filter (\<lambda>li. getValue li \<in> dom m) lives"
  by (induction lives arbitrary: st) (simp_all add: allocOne_intervals)

text \<open>
  Claim C10. A live interval whose value is not a key of the map leaves no trace:
  the allocator returns what it returns on the list without these intervals, the
  entries it builds are, in order, those of the intervals whose value is a key, and
  when no interval has its value in the map the result is the empty entry list
  with size 0. The allocator has no failing branch.
\<close>

theorem allocByLiveness_skips_unmapped:
  "allocByLiveness livesInfo old pValMemSizeMap =
     allocByLiveness (filter (\<lambda>li. getValue li \<in> dom pValMemSizeMap) livesInfo) old pValMemSizeMap
   \<and> map liveIntrvl (fst (allocByLiveness livesInfo old pValMemSizeMap)) =
        filter (\<lambda>li. getValue li \<in> dom pValMemSizeMap) livesInfo
   \<and> ((\<forall>li \<in> set livesInfo. pValMemSizeMap (getValue li) = None) \<longrightarrow>
        allocByLiveness livesInfo old pValMemSizeMap = ([], 0))"
proof (intro conjI impI)
  let ?keep = "filter (\<lambda>li. getValue li \<in> dom pValMemSizeMap) livesInfo"
  show "allocByLiveness livesInfo old pValMemSizeMap = allocByLiveness ?keep old pValMemSizeMap"
    unfolding allocByLiveness_def by (rule allocLoop_filter)
  show "map liveIntrvl (fst (allocByLiveness livesInfo old pValMemSizeMap)) = ?keep"
    by (simp add: allocByLiveness_def allocLoop_intervals clear_def)
  assume "\<forall>li \<in> set livesInfo. pValMemSizeMap (getValue li) = None"
  then have "?keep = []"
    by (auto simp: filter_empty_conv)
  then show "allocByLiveness livesInfo old pValMemSizeMap = ([], 0)"
    using allocLoop_filter [of pValMemSizeMap livesInfo "(clear old, 0)"]
    by (simp add: allocByLiveness_def clear_def)
qed

theorem allocByLiveness_skips_unmapped_witness:
  "(Map.empty :: nat ValMemSizeMap) 7 = None
   \<and> allocByLiveness [\<lparr>getValue = (7::nat), getStart = 0, getEnd = 3\<rparr>] [] Map.empty = ([], 0)"
  using allocByLiveness_skips_unmapped
          [of "[\<lparr>getValue = (7::nat), getStart = 0, getEnd = 3\<rparr>]" "[]" Map.empty]
  by (simp add: allocByLiveness_def clear_def)

text \<open>
  Claim C8. \<open>allocByLiveness\<close> is a function of the live intervals and the size map:
  the entries left by an earlier run are cleared first, so any two entry lists
  \<open>old\<close> and \<open>old'\<close> it may start from lead to the same entries and the same size,
  and running it again on its own result changes nothing.
\<close>

theorem allocByLiveness_independent_of_history:
  "allocByLiveness livesInfo old pValMemSizeMap = allocByLiveness livesInfo old' pValMemSizeMap
   \<and> allocByLiveness livesInfo (fst (allocByLiveness livesInfo old pValMemSizeMap)) pValMemSizeMap =
       allocByLiveness livesInfo old pValMemSizeMap"
  by (simp add: allocByLiveness_def clear_def)

section \<open>The placement scan on conflicts that overlap one another\<close>

text \<open>
  Claim C1, evaluated on the code. On the five values of \<open>overlapSizes\<close>, taken in
  the order of \<open>overlapLives\<close>, \<open>allocByLiveness\<close> places \<open>TensorS\<close> at
  \<open>[100, 200)\<close> and \<open>TensorX\<close> at \<open>[100, 105)\<close>, although their live intervals
  \<open>[4, 5]\<close> and \<open>[2, 4]\<close> intersect: two entries of one run whose live intervals
  intersect and whose address ranges overlap. The three regions in conflict with
  \<open>TensorX\<close> have different starting addresses, so the result does not depend on
  how the sort orders equal keys.
\<close>

theorem allocByLiveness_places_live_values_on_common_addresses:
  "allocByLiveness overlapLives old overlapSizes =
   ([\<lparr>startAddr = 0, size_e = 10, liveIntrvl = \<lparr>getValue = TensorP, getStart = 0, getEnd = 1\<rparr>\<rparr>,
     \<lparr>startAddr = 10, size_e = 10, liveIntrvl = \<lparr>getValue = TensorQ, getStart = 1, getEnd = 2\<rparr>\<rparr>,
     \<lparr>startAddr = 0, size_e = 100, liveIntrvl = \<lparr>getValue = TensorR, getStart = 3, getEnd = 4\<rparr>\<rparr>,
     \<lparr>startAddr = 100, size_e = 100, liveIntrvl = \<lparr>getValue = TensorS, getStart = 4, getEnd = 5\<rparr>\<rparr>,
     \<lparr>startAddr = 100, size_e = 5, liveIntrvl = \<lparr>getValue = TensorX, getStart = 2, getEnd = 4\<rparr>\<rparr>], 200)
  \<and> intersect \<lparr>getValue = TensorS, getStart = 4, getEnd = 5\<rparr> \<lparr>getValue = TensorX, getStart = 2, getEnd = 4\<rparr>
  \<and> rangesOverlap
       \<lparr>startAddr = 100, size_e = 100, liveIntrvl = \<lparr>getValue = TensorS, getStart = 4, getEnd = 5\<rparr>\<rparr>
       \<lparr>startAddr = 100, size_e = 5, liveIntrvl = \<lparr>getValue = TensorX, getStart = 2, getEnd = 4\<rparr>\<rparr>"
  by (simp add: allocByLiveness_def clear_def overlapLives_def overlapSizes_def allocOne_def
        GetUsedMemRegions_def intersect_def HasConflict_def rangesOverlap_def Let_def)

text \<open>
  Claim C2, evaluated on the code. When \<open>TensorX\<close> (5 bytes) is placed, the sorted
  conflicts are \<open>[0, 100)\<close>, \<open>[10, 20)\<close> and \<open>[100, 200)\<close>. The scan moves the
  candidate from 0 to 100 past the first region and stops at the second one, which
  does not overlap \<open>[100, 105)\<close>; it accepts 100 although the remaining region
  \<open>[100, 200)\<close> overlaps the candidate under the test of \<open>HasConflict\<close>.
\<close>

theorem scanConflicts_stops_before_overlapping_region:
  "GetUsedMemRegions
     [\<lparr>startAddr = 0, size_e = 10, liveIntrvl = \<lparr>getValue = TensorP, getStart = 0, getEnd = 1\<rparr>\<rparr>,
      \<lparr>startAddr = 10, size_e = 10, liveIntrvl = \<lparr>getValue = TensorQ, getStart = 1, getEnd = 2\<rparr>\<rparr>,
      \<lparr>startAddr = 0, size_e = 100, liveIntrvl = \<lparr>getValue = TensorR, getStart = 3, getEnd = 4\<rparr>\<rparr>,
      \<lparr>startAddr = 100, size_e = 100, liveIntrvl = \<lparr>getValue = TensorS, getStart = 4, getEnd = 5\<rparr>\<rparr>]
     \<lparr>getValue = TensorX, getStart = 2, getEnd = 4\<rparr> =
     [\<lparr>start = 0, size_r = 100\<rparr>, \<lparr>start = 10, size_r = 10\<rparr>, \<lparr>start = 100, size_r = 100\<rparr>]
   \<and> scanConflicts [\<lparr>start = 0, size_r = 100\<rparr>, \<lparr>start = 10, size_r = 10\<rparr>, \<lparr>start = 100, size_r = 100\<rparr>] 5 0 = 100
   \<and> HasConflict 100 100 100 5"
  by (simp add: GetUsedMemRegions_def intersect_def HasConflict_def Let_def)

section \<open>The allocator on live intervals in ascending order of start\<close>

text \<open>
  The scan is right when the conflicts lie apart from one another: sorted by start,
  each ends before the next begins. Then the first region that does not overlap the
  candidate lies behind it, and so do all later ones.
\<close>

lemma unat_add64:
  fixes a b :: "64 word"
  assumes "unat a + unat b < 2 ^ 64"
  shows "unat (a + b) = unat a + unat b"
  using assms unat_add_lem [of a b] by simp

lemma HasConflict_nat:
  assumes "unat sA + unat zA < 2 ^ 64" "unat sB + unat zB < 2 ^ 64"
  shows "HasConflict sA zA sB zB \<longleftrightarrow>
           \<not> (unat sA + unat zA \<le> unat sB \<or> unat sB + unat zB \<le> unat sA)"
proof -
  have a: "unat (sA + zA) = unat sA + unat zA"
    using assms(1) by (rule unat_add64)
  have b: "unat (sB + zB) = unat sB + unat zB"
    using assms(2) by (rule unat_add64)
  show ?thesis
    by (simp add: HasConflict_def Let_def word_le_nat_alt a b)
qed

lemma scan_free:
  assumes "sorted_wrt (\<lambda>r r'. regEnd r \<le> regStart r') regs"
      and "\<forall>r \<in> set regs. unat cand \<le> regStart r \<and> 0 < unat (size_r r) \<and>
                           regEnd r + unat required < 2 ^ 64"
      and "unat cand + unat required < 2 ^ 64"
  shows "(\<forall>r \<in> set regs. regEnd r \<le> unat (scanConflicts regs required cand) \<or>
                          unat (scanConflicts regs required cand) + unat required \<le> regStart r) \<and>
         (scanConflicts regs required cand = cand \<or>
          (\<exists>r \<in> set regs. unat (scanConflicts regs required cand) = regEnd r))"
  using assms
proof (induction regs arbitrary: cand)
  case Nil
  then show ?case by simp
next
  case (Cons r rs)
  have r: "unat cand \<le> regStart r" "0 < unat (size_r r)" "regEnd r + unat required < 2 ^ 64"
    using Cons.prems(2) by simp_all
  have rE: "unat (start r) + unat (size_r r) < 2 ^ 64" using r(3) by (simp add: regEnd_def)
  have conflict: "HasConflict (start r) (size_r r) cand required \<longleftrightarrow>
      regStart r < unat cand + unat required"
    using HasConflict_nat [OF rE Cons.prems(3)] r(1,2) by (auto simp: regStart_def)
  have later: "\<forall>r' \<in> set rs. regEnd r \<le> regStart r'"
    using Cons.prems(1) by simp
  show ?case
  proof (cases "HasConflict (start r) (size_r r) cand required")
    case False
    then have free: "unat cand + unat required \<le> regStart r" using conflict by simp
    have "regStart r \<le> regEnd r" by (simp add: regStart_def regEnd_def)
    with later free have "\<forall>r' \<in> set rs. unat cand + unat required \<le> regStart r'"
      by fastforce
    with False free show ?thesis by simp
  next
    case True
    let ?c = "start r + size_r r"
    have c: "unat ?c = regEnd r" using unat_add64 [OF rE] by (simp add: regEnd_def)
    have p1: "sorted_wrt (\<lambda>r r'. regEnd r \<le> regStart r') rs" using Cons.prems(1) by simp
    have p2: "\<forall>r' \<in> set rs. unat ?c \<le> regStart r' \<and> 0 < unat (size_r r') \<and>
                           regEnd r' + unat required < 2 ^ 64"
      using Cons.prems(2) later by (simp add: c)
    have p3: "unat ?c + unat required < 2 ^ 64" using r(3) by (simp add: c)
    note IH = Cons.IH [OF p1 p2 p3]
    let ?a = "scanConflicts rs required ?c"
    have ge: "regEnd r \<le> unat ?a"
    proof -
      from IH have "?a = ?c \<or> (\<exists>r' \<in> set rs. unat ?a = regEnd r')" by simp
      then show ?thesis
      proof
        assume "?a = ?c" then show ?thesis by (simp add: c)
      next
        assume "\<exists>r' \<in> set rs. unat ?a = regEnd r'"
        then obtain r' where r': "r' \<in> set rs" "unat ?a = regEnd r'" by blast
        have "regStart r' \<le> regEnd r'" by (simp add: regStart_def regEnd_def)
        with later r' show ?thesis by fastforce
      qed
    qed
    have res: "scanConflicts (r # rs) required cand = ?a" using True by simp
    have "?a = ?c \<or> (\<exists>r' \<in> set rs. unat ?a = regEnd r')" using IH by simp
    then have "\<exists>r' \<in> set (r # rs). unat ?a = regEnd r'" using c by auto
    with IH ge show ?thesis unfolding res by simp
  qed
qed

text \<open>
  The conflicts lie apart when the entries are \<open>liveDisjoint\<close> and every entry's
  live interval starts no later than the interval being placed: all conflicts are
  then live at its start, so they intersect one another.
\<close>

lemma rangesOverlap_regionOf:
  "rangesOverlap a b \<longleftrightarrow> \<not> regionsApart (regionOf a) (regionOf b)"
  by (simp add: rangesOverlap_def regionsApart_def regionOf_def regStart_def regEnd_def)

lemma GetUsedMemRegions_regionOf:
  "GetUsedMemRegions allocs li =
     sort_key start (map regionOf (filter (\<lambda>e. intersect (liveIntrvl e) li) allocs))"
proof -
  have "regionOf = (\<lambda>entry :: 'a MemAllocEntry. \<lparr>start = startAddr entry, size_r = size_e entry\<rparr>)"
    by (rule ext) (simp add: regionOf_def)
  then show ?thesis by (simp add: GetUsedMemRegions_def)
qed

lemma sorted_wrt_sym_set:
  assumes "sorted_wrt N xs" "\<And>x y. N x y \<Longrightarrow> N y x"
  shows "x \<in> set xs \<Longrightarrow> y \<in> set xs \<Longrightarrow> x \<noteq> y \<Longrightarrow> N x y"
  using assms(1)
proof (induction xs)
  case Nil
  then show ?case by simp
next
  case (Cons a xs)
  from Cons.prems(4) have hd: "\<forall>z \<in> set xs. N a z" and tl: "sorted_wrt N xs" by simp_all
  consider "x = a" "y \<in> set xs" | "y = a" "x \<in> set xs" | "x \<in> set xs" "y \<in> set xs"
    using Cons.prems(1,2,3) by auto
  then show ?case
  proof cases
    case 1
    then show ?thesis using hd by simp
  next
    case 2
    then have "N a x" using hd by simp
    then show ?thesis using 2 assms(2) by simp
  next
    case 3
    then show ?thesis using Cons.IH Cons.prems(3) tl by simp
  qed
qed

lemma sorted_wrt_irrefl_distinct:
  assumes "sorted_wrt N xs" "\<forall>x \<in> set xs. \<not> N x x"
  shows "distinct xs"
  using assms by (induction xs) auto

lemma separated_regions:
  assumes "sorted (map start xs)" "distinct xs"
      and "\<forall>x \<in> set xs. \<forall>y \<in> set xs. x \<noteq> y \<longrightarrow> regionsApart x y"
      and "\<forall>x \<in> set xs. 0 < unat (size_r x)"
  shows "sorted_wrt (\<lambda>r r'. regEnd r \<le> regStart r') xs"
  using assms
proof (induction xs)
  case Nil
  then show ?case by simp
next
  case (Cons x xs)
  have "regEnd x \<le> regStart y" if y: "y \<in> set xs" for y
  proof -
    have "start x \<le> start y" using Cons.prems(1) y by simp
    then have le: "regStart x \<le> regStart y" by (simp add: regStart_def word_le_nat_alt)
    have "x \<noteq> y" using Cons.prems(2) y by auto
    then have ap: "regionsApart x y" using Cons.prems(3) y by simp
    have "regStart y < regEnd y" using Cons.prems(4) y by (simp add: regStart_def regEnd_def)
    with le ap show ?thesis by (auto simp: regionsApart_def)
  qed
  moreover have "sorted_wrt (\<lambda>r r'. regEnd r \<le> regStart r') xs"
    using Cons by simp
  ultimately show ?case by simp
qed

lemma conflicts_separated:
  fixes allocs :: "'v MemAllocList"
  assumes a: "sorted_wrt (\<lambda>a b. intersect (liveIntrvl a) (liveIntrvl b) \<longrightarrow> \<not> rangesOverlap a b) allocs"
      and b: "\<forall>e \<in> set allocs. 0 < unat (size_e e) \<and> unat (startAddr e) + unat (size_e e) \<le> S"
      and c: "\<forall>e \<in> set allocs. getStart (liveIntrvl e) \<le> getStart li"
  shows "sorted_wrt (\<lambda>r r'. regEnd r \<le> regStart r') (GetUsedMemRegions allocs li)"
    and "\<forall>r \<in> set (GetUsedMemRegions allocs li). 0 < unat (size_r r) \<and> regEnd r \<le> S"
    and "\<forall>e \<in> set allocs. intersect (liveIntrvl e) li \<longrightarrow>
           regionOf e \<in> set (GetUsedMemRegions allocs li)"
proof -
  define F where "F = filter (\<lambda>e. intersect (liveIntrvl e) li) allocs"
  define M where "M = map regionOf F"
  have regs: "GetUsedMemRegions allocs li = sort_key start M"
    by (simp add: GetUsedMemRegions_regionOf M_def F_def)
  have F_int: "intersect (liveIntrvl x) (liveIntrvl y)" if "x \<in> set F" "y \<in> set F" for x y
    using that c by (auto simp: F_def intersect_def)
  have "sorted_wrt (\<lambda>a b. intersect (liveIntrvl a) (liveIntrvl b) \<longrightarrow> \<not> rangesOverlap a b) F"
    unfolding F_def using a by (rule sorted_wrt_filter)
  then have "sorted_wrt (\<lambda>a b. \<not> rangesOverlap a b) F"
    by (rule sorted_wrt_mono_rel [rotated]) (use F_int in blast)
  then have "sorted_wrt (\<lambda>a b. regionsApart (regionOf a) (regionOf b)) F"
    by (simp add: rangesOverlap_regionOf)
  then have M_apart: "sorted_wrt regionsApart M"
    by (simp add: M_def sorted_wrt_map)
  have M_pos: "\<forall>r \<in> set M. 0 < unat (size_r r) \<and> regEnd r \<le> S"
    using b by (auto simp: M_def F_def regionOf_def regEnd_def)
  have "\<forall>r \<in> set M. \<not> regionsApart r r"
    using M_pos by (auto simp: regionsApart_def regStart_def regEnd_def)
  with M_apart have dM: "distinct M" by (rule sorted_wrt_irrefl_distinct)
  have sym: "regionsApart x y \<Longrightarrow> regionsApart y x" for x y
    unfolding regionsApart_def by blast
  have sM: "\<forall>x \<in> set M. \<forall>y \<in> set M. x \<noteq> y \<longrightarrow> regionsApart x y"
    using sorted_wrt_sym_set [OF M_apart sym] by blast
  show "sorted_wrt (\<lambda>r r'. regEnd r \<le> regStart r') (GetUsedMemRegions allocs li)"
    unfolding regs
    by (rule separated_regions) (use dM sM M_pos in simp_all)
  show "\<forall>r \<in> set (GetUsedMemRegions allocs li). 0 < unat (size_r r) \<and> regEnd r \<le> S"
    unfolding regs using M_pos by simp
  show "\<forall>e \<in> set allocs. intersect (liveIntrvl e) li \<longrightarrow>
           regionOf e \<in> set (GetUsedMemRegions allocs li)"
    unfolding regs by (simp add: M_def F_def)
qed

lemma allocOne_keeps_disjoint:
  fixes allocs :: "'v MemAllocList"
  assumes a: "liveDisjoint allocs"
      and b: "\<forall>e \<in> set allocs. 0 < unat (size_e e) \<and> unat (startAddr e) + unat (size_e e) \<le> S"
      and c: "\<forall>e \<in> set allocs. getStart (liveIntrvl e) \<le> getStart li"
      and m: "m (getValue li) = Some required"
      and pos: "0 < unat required"
      and bound: "S + unat required < 2 ^ 64"
  shows "liveDisjoint (fst (allocOne m li (allocs, minSize)))"
    and "\<forall>e \<in> set (fst (allocOne m li (allocs, minSize))).
            0 < unat (size_e e) \<and> unat (startAddr e) + unat (size_e e) \<le> S + unat required"
    and "\<forall>e \<in> set (fst (allocOne m li (allocs, minSize))). getStart (liveIntrvl e) \<le> getStart li"
proof -
  let ?regs = "GetUsedMemRegions allocs li"
  let ?a = "scanConflicts ?regs required 0"
  define e' where "e' = \<lparr>startAddr = ?a, size_e = required, liveIntrvl = li\<rparr>"
  have res: "fst (allocOne m li (allocs, minSize)) = allocs @ [e']"
    by (simp add: allocOne_def m Let_def e'_def)
  note CS = conflicts_separated [OF a [unfolded liveDisjoint_def] b c]
  have s2: "\<forall>r \<in> set ?regs. unat (0 :: 64 word) \<le> regStart r \<and> 0 < unat (size_r r) \<and>
               regEnd r + unat required < 2 ^ 64"
    using CS(2) bound by fastforce
  have s3: "unat (0 :: 64 word) + unat required < 2 ^ 64" using bound by simp
  note SF = scan_free [OF CS(1) s2 s3]
  have free: "\<forall>r \<in> set ?regs. regEnd r \<le> unat ?a \<or> unat ?a + unat required \<le> regStart r"
    using SF by simp
  have aS: "unat ?a \<le> S"
  proof -
    from SF have "?a = 0 \<or> (\<exists>r \<in> set ?regs. unat ?a = regEnd r)" by simp
    then show ?thesis using CS(2) by auto
  qed
  have new: "intersect (liveIntrvl e) (liveIntrvl e') \<longrightarrow> \<not> rangesOverlap e e'"
    if e: "e \<in> set allocs" for e
  proof
    assume "intersect (liveIntrvl e) (liveIntrvl e')"
    then have "intersect (liveIntrvl e) li" by (simp add: e'_def)
    then have "regionOf e \<in> set ?regs" using CS(3) e by simp
    with free have "regEnd (regionOf e) \<le> unat ?a \<or> unat ?a + unat required \<le> regStart (regionOf e)"
      by simp
    then show "\<not> rangesOverlap e e'"
      by (auto simp: rangesOverlap_def e'_def regionOf_def regStart_def regEnd_def)
  qed
  show "liveDisjoint (fst (allocOne m li (allocs, minSize)))"
    unfolding res liveDisjoint_def sorted_wrt_append
    using a new by (simp add: liveDisjoint_def)
  show "\<forall>e \<in> set (fst (allocOne m li (allocs, minSize))).
            0 < unat (size_e e) \<and> unat (startAddr e) + unat (size_e e) \<le> S + unat required"
    unfolding res using b pos aS by (auto simp: e'_def)
  show "\<forall>e \<in> set (fst (allocOne m li (allocs, minSize))). getStart (liveIntrvl e) \<le> getStart li"
    unfolding res using c by (auto simp: e'_def)
qed

lemma allocLoop_keeps_disjoint:
  fixes allocs :: "'v MemAllocList"
  assumes "sorted (map getStart lives)"
      and "\<forall>li \<in> set lives. m (getValue li) \<noteq> Some 0"
      and "S + requiredTotal m lives < 2 ^ 64"
      and "liveDisjoint allocs"
      and "\<forall>e \<in> set allocs. 0 < unat (size_e e) \<and> unat (startAddr e) + unat (size_e e) \<le> S"
      and "\<forall>e \<in> set allocs. \<forall>li \<in> set lives. getStart (liveIntrvl e) \<le> getStart li"
  shows "liveDisjoint (fst (allocLoop m lives (allocs, minSize)))"
  using assms
proof (induction lives arbitrary: allocs minSize S)
  case Nil
  then show ?case by simp
next
  case (Cons li lives)
  have sorted_tl: "sorted (map getStart lives)" and hd_le: "\<forall>l \<in> set lives. getStart li \<le> getStart l"
    using Cons.prems(1) by simp_all
  have pos_tl: "\<forall>l \<in> set lives. m (getValue l) \<noteq> Some 0" using Cons.prems(2) by simp
  show ?case
  proof (cases "m (getValue li)")
    case None
    then have one: "allocOne m li (allocs, minSize) = (allocs, minSize)"
      by (simp add: allocOne_def)
    have tot: "requiredTotal m (li # lives) = requiredTotal m lives"
      using None by (simp add: requiredTotal_def)
    show ?thesis
      using Cons.IH [OF sorted_tl pos_tl _ Cons.prems(4) Cons.prems(5), of minSize] Cons.prems(3,6)
      by (simp add: one tot)
  next
    case (Some required)
    obtain allocs' minSize' where one: "allocOne m li (allocs, minSize) = (allocs', minSize')"
      by (cases "allocOne m li (allocs, minSize)")
    have tot: "requiredTotal m (li # lives) = unat required + requiredTotal m lives"
      using Some by (simp add: requiredTotal_def)
    have "required \<noteq> 0" using Cons.prems(2) Some by auto
    then have pos: "0 < unat required" by (simp add: unat_gt_0)
    have bound: "S + unat required < 2 ^ 64" using Cons.prems(3) tot by simp
    have c: "\<forall>e \<in> set allocs. getStart (liveIntrvl e) \<le> getStart li"
      using Cons.prems(6) by simp
    note K = allocOne_keeps_disjoint [where m = m and li = li and minSize = minSize,
        OF Cons.prems(4) Cons.prems(5) c Some pos bound]
    have k1: "liveDisjoint allocs'" using K(1) by (simp add: one)
    have k2: "\<forall>e \<in> set allocs'. 0 < unat (size_e e) \<and>
                 unat (startAddr e) + unat (size_e e) \<le> S + unat required"
      using K(2) by (simp add: one)
    have k3: "\<forall>e \<in> set allocs'. \<forall>l \<in> set lives. getStart (liveIntrvl e) \<le> getStart l"
      using K(3) hd_le by (fastforce simp: one)
    have b': "S + unat required + requiredTotal m lives < 2 ^ 64"
      using Cons.prems(3) tot by simp
    show ?thesis
      using Cons.IH [OF sorted_tl pos_tl b' k1 k2 k3, of minSize'] by (simp add: one)
  qed
qed

text \<open>
  So the invariant of claim C1 holds for every run whose live intervals arrive in
  ascending order of start, with sizes that are not 0 and whose sum is below
  \<open>2^64\<close>. The input of the overlapping placement above is not in that order.
\<close>

lemma allocByLiveness_disjoint_if_sorted:
  assumes "sorted (map getStart livesInfo)"
      and "\<forall>li \<in> set livesInfo. pValMemSizeMap (getValue li) \<noteq> Some 0"
      and "requiredTotal pValMemSizeMap livesInfo < 2 ^ 64"
  shows "liveDisjoint (fst (allocByLiveness livesInfo old pValMemSizeMap))"
  unfolding allocByLiveness_def clear_def
  by (rule allocLoop_keeps_disjoint [where S = 0])
     (use assms in \<open>simp_all add: liveDisjoint_def\<close>)

lemma overlap_example_not_liveDisjoint:
  "\<not> liveDisjoint (fst (allocByLiveness overlapLives old overlapSizes))"
  by (simp add: liveDisjoint_def allocByLiveness_def clear_def overlapLives_def overlapSizes_def
        allocOne_def GetUsedMemRegions_def intersect_def HasConflict_def rangesOverlap_def Let_def)

lemma overlap_example_not_sorted: "\<not> sorted (map getStart overlapLives)"
  by (simp add: overlapLives_def)

text \<open>
  On the three values of \<open>simpleFitSizes\<close> the allocator places the third value
  at address 0 again, below the second one, and returns the size 30.
\<close>

lemma simple_fit_placement:
  "allocByLiveness simpleFitLives old simpleFitSizes =
     ([\<lparr>startAddr = 0, size_e = 10, liveIntrvl = \<lparr>getValue = TensorP, getStart = 0, getEnd = 2\<rparr>\<rparr>,
       \<lparr>startAddr = 10, size_e = 20, liveIntrvl = \<lparr>getValue = TensorQ, getStart = 1, getEnd = 3\<rparr>\<rparr>,
       \<lparr>startAddr = 0, size_e = 10, liveIntrvl = \<lparr>getValue = TensorR, getStart = 3, getEnd = 4\<rparr>\<rparr>],
      30)"
  by (simp add: allocByLiveness_def clear_def simpleFitLives_def simpleFitSizes_def allocOne_def
        GetUsedMemRegions_def intersect_def HasConflict_def Let_def)

lemma simple_fit_disjoint:
  "liveDisjoint (fst (allocByLiveness simpleFitLives old simpleFitSizes))"
proof (rule allocByLiveness_disjoint_if_sorted)
  show "sorted (map getStart simpleFitLives)" by (simp add: simpleFitLives_def)
  show "\<forall>li \<in> set simpleFitLives. simpleFitSizes (getValue li) \<noteq> Some 0"
    by (simp add: simpleFitLives_def simpleFitSizes_def)
  show "requiredTotal simpleFitSizes simpleFitLives < 2 ^ 64"
    by (simp add: requiredTotal_def simpleFitLives_def simpleFitSizes_def)
qed

section \<open>Rounding to single precision\<close>

lemma bitlen_powi_bounds:
  assumes "0 < a"
  shows "(2::rat) powi (bitlen a - 1) \<le> of_int a" and "of_int a < (2::rat) powi (bitlen a)"
proof -
  from assms have b1: "1 \<le> bitlen a" by (simp add: bitlen_alt_def)
  from bitlen_bounds [OF assms] have lo: "2 ^ nat (bitlen a - 1) \<le> a" and hi: "a < 2 ^ nat (bitlen a)"
    by simp_all
  have "(2::rat) powi (bitlen a - 1) = 2 ^ nat (bitlen a - 1)"
    using b1 by (simp add: power_int_def)
  also have "\<dots> = of_int (2 ^ nat (bitlen a - 1))" by simp
  also have "\<dots> \<le> of_int a" using lo by (simp only: of_int_le_iff)
  finally show "(2::rat) powi (bitlen a - 1) \<le> of_int a" .
  have "(of_int a :: rat) < of_int (2 ^ nat (bitlen a))" using hi by (simp only: of_int_less_iff)
  also have "\<dots> = 2 powi (bitlen a)" using b1 by (simp add: power_int_def)
  finally show "of_int a < (2::rat) powi (bitlen a)" .
qed

lemma floorLog2_bounds:
  assumes "0 < x"
  shows "2 powi (floorLog2 x) \<le> x" and "x < 2 powi (floorLog2 x + 1)"
proof -
  obtain a b where q: "quotient_of x = (a, b)" by (cases "quotient_of x")
  have b: "0 < b" using q quotient_of_denom_pos by blast
  have x: "x = of_int a / of_int b" using q by (rule quotient_of_div)
  have a: "0 < a" using assms b x by (simp add: zero_less_divide_iff)
  let ?k = "bitlen a - bitlen b"
  note A = bitlen_powi_bounds [OF a] and B = bitlen_powi_bounds [OF b]
  have bpos: "(0::rat) < of_int b" using b by simp
  have lo: "(2::rat) powi (?k - 1) \<le> x"
  proof -
    have "(2::rat) powi (?k - 1) * of_int b \<le> 2 powi (?k - 1) * 2 powi (bitlen b)"
      using B(2) by (intro mult_left_mono) simp_all
    also have "\<dots> = 2 powi (bitlen a - 1)"
      by (simp flip: power_int_add) 
    also have "\<dots> \<le> of_int a" by (rule A(1))
    finally show ?thesis unfolding x using bpos by (simp add: pos_le_divide_eq)
  qed
  have hi: "x < (2::rat) powi (?k + 1)"
  proof -
    have "of_int a < (2::rat) powi (bitlen a)" by (rule A(2))
    also have "\<dots> = 2 powi (?k + 1) * 2 powi (bitlen b - 1)"
      by (simp flip: power_int_add)
    also have "\<dots> \<le> 2 powi (?k + 1) * of_int b"
      using B(1) by (intro mult_left_mono) simp_all
    finally show ?thesis unfolding x using bpos by (simp add: pos_divide_less_eq)
  qed
  have e: "floorLog2 x = (if 2 powi ?k \<le> x then ?k else ?k - 1)"
    by (simp add: floorLog2_def q Let_def)
  show "2 powi (floorLog2 x) \<le> x" using lo by (simp add: e)
  show "x < 2 powi (floorLog2 x + 1)" using hi by (auto simp: e not_le)
qed

lemma floorLog2_unique:
  assumes "2 powi e \<le> x" "x < 2 powi (e + 1)"
  shows "floorLog2 x = e"
proof -
  have x: "0 < x" using assms(1) by (smt (verit) zero_less_power_int zero_less_numeral less_le_trans)
  note F = floorLog2_bounds [OF x]
  have "e < floorLog2 x + 1"
  proof (rule ccontr)
    assume "\<not> e < floorLog2 x + 1"
    then have "floorLog2 x + 1 \<le> e" by simp
    then have "(2::rat) powi (floorLog2 x + 1) \<le> 2 powi e" by (intro power_int_increasing) simp_all
    with F(2) assms(1) show False by simp
  qed
  moreover have "floorLog2 x < e + 1"
  proof (rule ccontr)
    assume "\<not> floorLog2 x < e + 1"
    then have "e + 1 \<le> floorLog2 x" by simp
    then have "(2::rat) powi (e + 1) \<le> 2 powi (floorLog2 x)" by (intro power_int_increasing) simp_all
    with F(1) assms(2) show False by simp
  qed
  ultimately show ?thesis by simp
qed

lemma roundHalfEven_of_int: "roundHalfEven (of_int n) = n"
  by (simp add: roundHalfEven_def)

lemma roundHalfEven_ge: "of_int m \<le> x \<Longrightarrow> m \<le> roundHalfEven x"
proof -
  assume "of_int m \<le> x"
  then have "m \<le> \<lfloor>x\<rfloor>" by (simp add: le_floor_iff)
  then show ?thesis by (simp add: roundHalfEven_def Let_def)
qed

lemma roundHalfEven_le_half: "x < of_int m + 1 / 2 \<Longrightarrow> roundHalfEven x \<le> m"
proof -
  assume a: "x < of_int m + 1 / 2"
  then have "x < of_int (m + 1)" by simp
  then have "\<lfloor>x\<rfloor> < m + 1" by (simp only: floor_less_iff)
  then have f: "\<lfloor>x\<rfloor> \<le> m" by simp
  show ?thesis
  proof (cases "\<lfloor>x\<rfloor> = m")
    case True
    with a have "x - of_int \<lfloor>x\<rfloor> < 1 / 2" by simp
    then show ?thesis using True by (simp add: roundHalfEven_def Let_def)
  next
    case False
    with f have "\<lfloor>x\<rfloor> + 1 \<le> m" by simp
    then show ?thesis by (simp add: roundHalfEven_def Let_def)
  qed
qed

lemma roundHalfEven_le: "x \<le> of_int m \<Longrightarrow> roundHalfEven x \<le> m"
  by (rule roundHalfEven_le_half) simp

lemma roundHalfEven_gt_half: "of_int m + 1 / 2 < x \<Longrightarrow> m + 1 \<le> roundHalfEven x"
proof -
  assume a: "of_int m + 1 / 2 < x"
  then have "of_int m \<le> x" by simp
  then have f: "m \<le> \<lfloor>x\<rfloor>" by (simp add: le_floor_iff)
  show ?thesis
  proof (cases "\<lfloor>x\<rfloor> = m")
    case True
    with a have "1 / 2 < x - of_int \<lfloor>x\<rfloor>" by simp
    then show ?thesis using True by (simp add: roundHalfEven_def Let_def)
  next
    case False
    with f have "m + 1 \<le> \<lfloor>x\<rfloor>" by simp
    then show ?thesis by (simp add: roundHalfEven_def Let_def)
  qed
qed

lemma toFloat_pos:
  assumes "0 < x"
  shows "toFloat x = of_int (roundHalfEven (x / 2 powi (floorLog2 x - 23))) * 2 powi (floorLog2 x - 23)"
  using assms by (simp add: toFloat_def Let_def)

lemma toFloat_pos_bounds:
  assumes "0 < x"
  shows "2 powi (floorLog2 x) \<le> toFloat x" and "toFloat x \<le> 2 powi (floorLog2 x + 1)"
proof -
  let ?e = "floorLog2 x"
  let ?u = "(2::rat) powi (?e - 23)"
  have u: "0 < ?u" by simp
  note F = floorLog2_bounds [OF assms]
  have e1: "(2::rat) powi ?e = of_int (2 ^ 23) * ?u"
    by (simp add: power_int_diff)
  have e2: "(2::rat) powi (?e + 1) = of_int (2 ^ 24) * ?u"
    by (simp add: power_int_diff power_int_add)
  have "of_int (2 ^ 23) \<le> x / ?u"
    using F(1) u unfolding e1 by (simp only: pos_le_divide_eq)
  then have "2 ^ 23 \<le> roundHalfEven (x / ?u)" by (rule roundHalfEven_ge)
  then have "(of_int (2 ^ 23) :: rat) \<le> of_int (roundHalfEven (x / ?u))"
    by (simp only: of_int_le_iff)
  then have "of_int (2 ^ 23) * ?u \<le> of_int (roundHalfEven (x / ?u)) * ?u"
    using u by (simp only: mult_le_cancel_right_pos)
  then show "2 powi ?e \<le> toFloat x"
    unfolding toFloat_pos [OF assms] e1 .
  have "x / ?u \<le> of_int (2 ^ 24)"
    using F(2) u unfolding e2 by (simp only: pos_divide_le_eq)
  then have "roundHalfEven (x / ?u) \<le> 2 ^ 24" by (rule roundHalfEven_le)
  then have "(of_int (roundHalfEven (x / ?u)) :: rat) \<le> of_int (2 ^ 24)"
    by (simp only: of_int_le_iff)
  then have "of_int (roundHalfEven (x / ?u)) * ?u \<le> of_int (2 ^ 24) * ?u"
    using u by (simp only: mult_le_cancel_right_pos)
  then show "toFloat x \<le> 2 powi (?e + 1)"
    unfolding toFloat_pos [OF assms] e2 .
qed

lemma toFloat_pos_nonzero: "0 < x \<Longrightarrow> 0 < toFloat x"
  using toFloat_pos_bounds(1) [of x]
  by (smt (verit) zero_less_power_int zero_less_numeral less_le_trans)

lemma powi2_less_cancel:
  assumes "(2::rat) powi a < 2 powi b"
  shows "a < b"
proof (rule ccontr)
  assume "\<not> a < b"
  then have "b \<le> a" by simp
  then have "(2::rat) powi b \<le> 2 powi a" by (intro power_int_increasing) simp_all
  with assms show False by simp
qed

lemma toFloat_nat_exact:
  assumes "n < 16777216"
  shows "toFloat (of_nat n) = of_nat n"
proof (cases "n = 0")
  case True
  then show ?thesis by (simp add: toFloat_def)
next
  case False
  let ?x = "of_nat n :: rat"
  have x: "0 < ?x" using False by simp
  let ?e = "floorLog2 ?x"
  note F = floorLog2_bounds [OF x]
  have "?x < of_nat 16777216" using assms by (simp only: of_nat_less_iff)
  also have "of_nat 16777216 = (2::rat) powi 24" by simp
  finally have "?x < 2 powi 24" .
  with F(1) have "(2::rat) powi ?e < 2 powi 24" by simp
  then have e: "?e < 24" by (rule powi2_less_cancel)
  define k where "k = nat (23 - ?e)"
  have u: "(2::rat) powi (?e - 23) = inverse (2 ^ k)"
    using e by (simp add: k_def power_int_def power_one_over inverse_eq_divide)
  have "?x / 2 powi (?e - 23) = of_int (int n * 2 ^ k)"
    unfolding u by (simp add: field_simps)
  then have "roundHalfEven (?x / 2 powi (?e - 23)) = int n * 2 ^ k"
    by (simp only: roundHalfEven_of_int)
  then show ?thesis
    unfolding toFloat_pos [OF x] u by (simp add: field_simps)
qed

lemma threshold_value: "threshold = 15099494 / 16777216"
  unfolding threshold_def by code_simp

lemma toFloat_one: "toFloat 1 = 1"
  using toFloat_nat_exact [of 1] by simp

lemma toFloat_half_to_one:
  assumes "1 / 2 \<le> x" "x < 1"
  shows "toFloat x = of_int (roundHalfEven (x * 16777216)) / 16777216"
proof -
  have x: "0 < x" using assms(1) by simp
  have "floorLog2 x = - 1"
    by (rule floorLog2_unique) (use assms in \<open>simp_all add: power_int_minus\<close>)
  then have u: "(2::rat) powi (floorLog2 x - 23) = 1 / 16777216"
    by (simp add: power_int_minus)
  show ?thesis
    unfolding toFloat_pos [OF x] u by simp
qed

lemma toFloat_ge_one:
  assumes "1 \<le> q"
  shows "1 \<le> toFloat q"
proof -
  have q0: "0 < q" using assms by simp
  have "(2::rat) powi 0 \<le> q" using assms by simp
  also have "q < 2 powi (floorLog2 q + 1)" by (rule floorLog2_bounds(2) [OF q0])
  finally have "0 < floorLog2 q + 1" by (rule powi2_less_cancel)
  then have "0 \<le> floorLog2 q" by simp
  then have "(2::rat) powi 0 \<le> 2 powi (floorLog2 q)"
    by (intro power_int_increasing) simp_all
  also have "\<dots> \<le> toFloat q" by (rule toFloat_pos_bounds(1) [OF q0])
  finally show ?thesis by simp
qed

lemma toFloat_le_half:
  assumes "0 < q" "q < 1 / 2"
  shows "toFloat q \<le> 1 / 2"
proof -
  have "(2::rat) powi (floorLog2 q) \<le> q" by (rule floorLog2_bounds(1) [OF assms(1)])
  also have "q < 1 / 2" by (rule assms(2))
  also have "(1 / 2 :: rat) = 2 powi (- 1)" by (simp add: power_int_minus)
  finally have "floorLog2 q < - 1" by (rule powi2_less_cancel)
  then have "floorLog2 q + 1 \<le> - 1" by simp
  then have "(2::rat) powi (floorLog2 q + 1) \<le> 2 powi (- 1)"
    by (intro power_int_increasing) simp_all
  also have "(2::rat) powi (- 1) = 1 / 2" by (simp add: power_int_minus)
  finally show ?thesis using toFloat_pos_bounds(2) [OF assms(1)] by simp
qed

lemma toFloat_quotient_above:
  assumes "0 < b" "b < 16777216"
  shows "15099494 / 16777216 < toFloat (of_nat a / of_nat b) \<longleftrightarrow> 9 * b < 10 * a"
proof
  define q :: rat where "q = of_nat a / of_nat b"
  have bq: "(0::rat) < of_nat b" using assms(1) by simp
  assume gt: "9 * b < 10 * a"
  show "15099494 / 16777216 < toFloat (of_nat a / of_nat b)"
  proof (cases "q < 1")
    case False
    then have "1 \<le> q" by simp
    then have "1 \<le> toFloat q" by (rule toFloat_ge_one)
    then show ?thesis unfolding q_def by simp
  next
    case True
    have "9 * b + 1 \<le> 10 * a" using gt by simp
    then have "(of_nat (9 * b + 1) :: rat) \<le> of_nat (10 * a)" by (simp only: of_nat_le_iff)
    then have le: "9 * of_nat b + 1 \<le> 10 * (of_nat a :: rat)" by simp
    have "(of_nat b :: rat) < of_nat 16777216" using assms(2) by (simp only: of_nat_less_iff)
    then have b2: "(of_nat b :: rat) < 16777216" by simp
    have "(15099494 + 1 / 2) * of_nat b < 16777216 * (of_nat a :: rat)"
      using le b2 by simp
    then have half: "of_int 15099494 + 1 / 2 < q * 16777216"
      unfolding q_def using bq by (simp add: pos_less_divide_eq)
    then have "1 / 2 \<le> q" by simp
    then have tf: "toFloat q = of_int (roundHalfEven (q * 16777216)) / 16777216"
      using True by (rule toFloat_half_to_one)
    from half have "15099494 + 1 \<le> roundHalfEven (q * 16777216)"
      by (rule roundHalfEven_gt_half)
    then have "15099495 \<le> roundHalfEven (q * 16777216)" by simp
    then have "(of_int 15099495 :: rat) \<le> of_int (roundHalfEven (q * 16777216))"
      by (simp only: of_int_le_iff)
    then have "15099494 / 16777216 < toFloat q" unfolding tf by simp
    then show ?thesis unfolding q_def .
  qed
next
  define q :: rat where "q = of_nat a / of_nat b"
  have bq: "(0::rat) < of_nat b" using assms(1) by simp
  assume above: "15099494 / 16777216 < toFloat (of_nat a / of_nat b)"
  show "9 * b < 10 * a"
  proof (rule ccontr)
    assume "\<not> 9 * b < 10 * a"
    then have "10 * a \<le> 9 * b" by simp
    then have "(of_nat (10 * a) :: rat) \<le> of_nat (9 * b)" by (simp only: of_nat_le_iff)
    then have le: "10 * (of_nat a :: rat) \<le> 9 * of_nat b" by simp
    then have q9: "q \<le> 9 / 10" unfolding q_def using bq by (simp add: pos_divide_le_eq)
    have q0: "a \<noteq> 0 \<Longrightarrow> 0 < q" unfolding q_def using bq by simp
    have "toFloat q \<le> 15099494 / 16777216"
    proof (cases "a = 0")
      case True
      then show ?thesis by (simp add: toFloat_def q_def)
    next
      case False
      show ?thesis
      proof (cases "q < 1 / 2")
        case True
        have "toFloat q \<le> 1 / 2" using q0 [OF False] True by (rule toFloat_le_half)
        then show ?thesis by simp
      next
        case False
        then have h: "1 / 2 \<le> q" by simp
        have q1: "q < 1" using q9 by simp
        have tf: "toFloat q = of_int (roundHalfEven (q * 16777216)) / 16777216"
          using h q1 by (rule toFloat_half_to_one)
        have "q * 16777216 < of_int 15099494 + 1 / 2" using q9 by simp
        then have "roundHalfEven (q * 16777216) \<le> 15099494" by (rule roundHalfEven_le_half)
        then have "(of_int (roundHalfEven (q * 16777216)) :: rat) \<le> of_int 15099494"
          by (simp only: of_int_le_iff)
        then show ?thesis unfolding tf by simp
      qed
    qed
    with above show False unfolding q_def by simp
  qed
qed

lemma sint_nonneg_eq_uint:
  fixes p :: "64 word"
  assumes "0 \<le> sint p"
  shows "sint p = uint p"
proof -
  have s: "sint p = signed_take_bit 63 (uint p)"
    by (simp add: sint_uint)
  with assms have nb: "\<not> bit (uint p) 63" by simp
  have "uint p = take_bit (Suc 63) (uint p)"
    using uint_lt2p [of p] by (simp add: take_bit_int_eq_self)
  also have "\<dots> = take_bit 63 (uint p)"
    using nb by (simp only: take_bit_Suc_from_most) simp
  finally have "take_bit 63 (uint p) = uint p" by simp
  then show ?thesis
    using nb by (simp add: s signed_take_bit_eq_if_positive)
qed

lemma rat_of_sint:
  fixes p :: "64 word"
  assumes "0 \<le> sint p"
  shows "(of_int (sint p) :: rat) = of_nat (unat p)"
  by (simp add: sint_nonneg_eq_uint [OF assms])

lemma small_sint:
  fixes p :: "64 word"
  assumes "p < 16777216"
  shows "0 \<le> sint p" and "unat p < 16777216"
proof -
  show u: "unat p < 16777216" using assms by (simp add: word_less_nat_alt)
  then have "int (unat p) < int 16777216" by (simp only: of_nat_less_iff)
  then have "uint p < 2 ^ 24" by simp
  then have "take_bit 24 (uint p) = uint p" by (simp add: take_bit_int_eq_self)
  then have "bit (uint p) 63 = bit (take_bit 24 (uint p)) 63" by simp
  also have "\<dots> = False" by (simp only: bit_take_bit_iff) simp
  finally show "0 \<le> sint p" by (simp add: sint_uint)
qed

lemma ratioAboveThreshold_exact:
  assumes "minSize < 16777216" "prevMinSize \<noteq> 0" "prevMinSize < 16777216"
  shows "ratioAboveThreshold minSize prevMinSize \<longleftrightarrow> 9 * unat prevMinSize < 10 * unat minSize"
proof -
  have b: "0 < unat prevMinSize" using assms(2) by (simp add: unat_gt_0)
  note P = small_sint [OF assms(3)] and M = small_sint [OF assms(1)]
  have 1: "toFloat (of_nat (unat minSize)) = of_nat (unat minSize)"
    using M(2) by (rule toFloat_nat_exact)
  have 2: "toFloat (of_int (sint prevMinSize)) = of_nat (unat prevMinSize)"
    unfolding rat_of_sint [OF P(1)] using P(2) by (rule toFloat_nat_exact)
  show ?thesis
    unfolding ratioAboveThreshold_def threshold_value 1 2
    by (rule toFloat_quotient_above [OF b P(2)])
qed

lemma ratioAboveThreshold_same:
  fixes p :: "64 word"
  assumes "p \<noteq> 0" "0 \<le> sint p"
  shows "ratioAboveThreshold p p"
proof -
  have b: "0 < unat p" using assms(1) by (simp add: unat_gt_0)
  have "(0::rat) < of_nat (unat p)" using b by (simp only: of_nat_0_less_iff)
  then have "0 < toFloat (of_nat (unat p))" by (rule toFloat_pos_nonzero)
  then have "toFloat (of_nat (unat p)) / toFloat (of_nat (unat p)) = 1" by simp
  then show ?thesis
    unfolding ratioAboveThreshold_def threshold_value rat_of_sint [OF assms(2)]
    by (simp add: toFloat_one)
qed

lemma ratio_950: "ratioAboveThreshold 950 1000"
  by (subst ratioAboveThreshold_exact) simp_all

lemma ratio_850: "\<not> ratioAboveThreshold 850 1000"
  by (subst ratioAboveThreshold_exact) simp_all

lemma conv1: "(of_nat (unat (900000001 :: 64 word)) :: rat) = 900000001" by simp

lemma conv2: "(of_int (sint (1000000000 :: 64 word)) :: rat) = 1000000000" by simp

lemma ratio_boundary: "\<not> ratioAboveThreshold 900000001 1000000000"
proof -
  have "\<not> threshold < toFloat (toFloat 900000001 / toFloat 1000000000)"
    unfolding threshold_def by code_simp
  then show ?thesis
    unfolding ratioAboveThreshold_def conv1 conv2 .
qed

lemma ratio_1900: "ratioAboveThreshold 1900 2000"
  by (subst ratioAboveThreshold_exact) simp_all

lemma ratio_1000: "ratioAboveThreshold 1000 1000"
  by (subst ratioAboveThreshold_exact) simp_all

lemma hconv1: "(of_nat (unat (9223372036854775808 :: 64 word)) :: rat) = 9223372036854775808"
  by simp

lemma hconv2: "(of_int (sint (9223372036854775808 :: 64 word)) :: rat) = - 9223372036854775808"
  by simp

lemma huge_ratio: "\<not> ratioAboveThreshold 9223372036854775808 9223372036854775808"
proof -
  have "\<not> threshold < toFloat (toFloat 9223372036854775808 / toFloat (- 9223372036854775808))"
    unfolding threshold_def by code_simp
  then show ?thesis
    unfolding ratioAboveThreshold_def hconv1 hconv2 .
qed

lemma below_half_range_sint:
  fixes p :: "64 word"
  assumes "p < 9223372036854775808"
  shows "0 \<le> sint p"
proof -
  have "uint p < uint (9223372036854775808 :: 64 word)" using assms by (simp only: word_less_alt)
  then have "uint p < 2 ^ 63" by simp
  then have "take_bit 63 (uint p) = uint p" by (simp add: take_bit_int_eq_self)
  then have "bit (uint p) 63 = bit (take_bit 63 (uint p)) 63" by simp
  also have "\<dots> = False" by (simp only: bit_take_bit_iff) simp
  finally show "0 \<le> sint p" by (simp add: sint_uint)
qed

lemma floatRatioAbove_code:
  assumes "prevMinSize < 9223372036854775808"
  shows "ratioAboveThreshold minSize prevMinSize \<longleftrightarrow> floatRatioAbove minSize prevMinSize"
  unfolding ratioAboveThreshold_def floatRatioAbove_def
  by (simp only: rat_of_sint [OF below_half_range_sint [OF assms]])

section \<open>One iteration of the planner\<close>

lemma allocByLiveness_any_old:
  "allocByLiveness lives old m = allocByLiveness lives [] m"
  by (simp add: allocByLiveness_def clear_def)

lemma allocByLiveness_eq:
  "allocByLiveness (getLiveIntervals C (world s)) (m_MemAllocList s) (getMemUsage C spGraph (world s)) =
     (allocatedEntries C spGraph (world s), allocatedPeak C spGraph (world s))"
  unfolding allocatedEntries_def allocatedPeak_def
  by (subst allocByLiveness_any_old) simp

lemma planIteration_accept:
  assumes "allocatedPeak C spGraph (world s) < localMemSize"
  shows "planIteration C localMemSize spGraph s worklist prevMinSize =
     Accepted (s\<lparr>m_MemAllocList := allocatedEntries C spGraph (world s)\<rparr>)"
  using assms by (simp add: planIteration_def allocByLiveness_eq Let_def)

lemma planIteration_split:
  assumes "splitRequired C localMemSize spGraph (world s) prevMinSize"
  shows "planIteration C localMemSize spGraph s worklist prevMinSize =
    (case splitNewSubGraph C spGraph (resetToOrigSize C spGraph (world s)) of
       (Some g, w2) \<Rightarrow>
          Continue (s\<lparr>m_MemAllocList := allocatedEntries C spGraph (world s), world := w2\<rparr>)
            (worklist @ [g]) 0
     | (None, w2) \<Rightarrow>
          Abandoned (s\<lparr>m_MemAllocList := allocatedEntries C spGraph (world s), world := w2,
                        errs := errs s @ [UnableToAllocate]\<rparr>))"
proof -
  obtain newSpGraph w2 where b:
    "splitNewSubGraph C spGraph (resetToOrigSize C spGraph (world s)) = (newSpGraph, w2)"
    by (cases "splitNewSubGraph C spGraph (resetToOrigSize C spGraph (world s))")
  show ?thesis
    using assms
    by (cases newSpGraph)
       (simp_all add: planIteration_def splitRequired_def allocByLiveness_eq Let_def b)
qed

lemma planIteration_shrink:
  assumes "\<not> allocatedPeak C spGraph (world s) < localMemSize"
      and "\<not> (prevMinSize \<noteq> 0 \<and> ratioAboveThreshold (allocatedPeak C spGraph (world s)) prevMinSize)"
  shows "planIteration C localMemSize spGraph s worklist prevMinSize =
     Continue
       (s\<lparr>m_MemAllocList := allocatedEntries C spGraph (world s),
           errs := errs s @ [ShrinkArrowKb
             (toFloat (toFloat (of_int (sint (allocatedPeak C spGraph (world s)))) / 1024))],
           world := shrinkSize C spGraph (world s)\<rparr>)
       worklist (allocatedPeak C spGraph (world s))"
  using assms by (auto simp add: planIteration_def allocByLiveness_eq Let_def)

lemma planIteration_cases:
  obtains (accept) "planIteration C localMemSize spGraph s worklist prevMinSize =
              Accepted (s\<lparr>m_MemAllocList := allocatedEntries C spGraph (world s)\<rparr>)"
              "allocatedPeak C spGraph (world s) < localMemSize"
  | (abandon) w2 where "planIteration C localMemSize spGraph s worklist prevMinSize =
              Abandoned (s\<lparr>m_MemAllocList := allocatedEntries C spGraph (world s), world := w2,
                          errs := errs s @ [UnableToAllocate]\<rparr>)"
              "splitRequired C localMemSize spGraph (world s) prevMinSize"
              "splitNewSubGraph C spGraph (resetToOrigSize C spGraph (world s)) = (None, w2)"
  | (split) g w2 where "planIteration C localMemSize spGraph s worklist prevMinSize =
              Continue (s\<lparr>m_MemAllocList := allocatedEntries C spGraph (world s), world := w2\<rparr>)
                 (worklist @ [g]) 0"
              "splitRequired C localMemSize spGraph (world s) prevMinSize"
              "splitNewSubGraph C spGraph (resetToOrigSize C spGraph (world s)) = (Some g, w2)"
  | (shrink) "planIteration C localMemSize spGraph s worklist prevMinSize =
              Continue
                (s\<lparr>m_MemAllocList := allocatedEntries C spGraph (world s),
                    errs := errs s @ [ShrinkArrowKb
                      (toFloat (toFloat (of_int (sint (allocatedPeak C spGraph (world s)))) / 1024))],
                    world := shrinkSize C spGraph (world s)\<rparr>)
                worklist (allocatedPeak C spGraph (world s))"
              "\<not> allocatedPeak C spGraph (world s) < localMemSize"
              "\<not> (prevMinSize \<noteq> 0 \<and> ratioAboveThreshold (allocatedPeak C spGraph (world s)) prevMinSize)"
proof -
  consider (a) "allocatedPeak C spGraph (world s) < localMemSize"
    | (b) "splitRequired C localMemSize spGraph (world s) prevMinSize"
    | (c) "\<not> allocatedPeak C spGraph (world s) < localMemSize"
          "\<not> (prevMinSize \<noteq> 0 \<and> ratioAboveThreshold (allocatedPeak C spGraph (world s)) prevMinSize)"
    unfolding splitRequired_def by blast
  then show thesis
  proof cases
    case a
    show ?thesis by (rule accept) (simp_all add: planIteration_accept a)
  next
    case b
    obtain n w2 where sp: "splitNewSubGraph C spGraph (resetToOrigSize C spGraph (world s)) = (n, w2)"
      by (cases "splitNewSubGraph C spGraph (resetToOrigSize C spGraph (world s))")
    show ?thesis
    proof (cases n)
      case None
      show ?thesis
        by (rule abandon [of w2]) (simp_all add: planIteration_split [OF b] sp None b)
    next
      case (Some g)
      show ?thesis
        by (rule split [of w2 g]) (simp_all add: planIteration_split [OF b] sp Some b)
    qed
  next
    case c
    show ?thesis by (rule shrink) (simp_all add: planIteration_shrink c)
  qed
qed

section \<open>The planner loop and the worklist\<close>

lemma planSubGraph_result:
  fixes C :: "('w, 'p, 'v) Collaborators"
  assumes "planSubGraph C localMemSize spGraph s worklist prevMinSize = Some r"
  shows "(\<exists>pushed. snd (snd r) = worklist @ pushed) \<and>
         (fst r = Unallocated \<longrightarrow>
            errs (fst (snd r)) \<noteq> [] \<and> last (errs (fst (snd r))) = UnableToAllocate) \<and>
         (fst r = Fits \<longrightarrow>
            allocatedPeak C spGraph (world (fst (snd r))) < localMemSize \<and>
            m_MemAllocList (fst (snd r)) = allocatedEntries C spGraph (world (fst (snd r))))"
proof -
  define Q :: "('w, 'p, 'v) Collaborators \<Rightarrow> 64 word \<Rightarrow> 'p \<Rightarrow> 'p list
      \<Rightarrow> Outcome \<times> ('w, 'v) PassState \<times> 'p list \<Rightarrow> bool" where
    "Q C l g wl y \<longleftrightarrow> (\<exists>pushed. snd (snd y) = wl @ pushed) \<and>
       (fst y = Unallocated \<longrightarrow>
          errs (fst (snd y)) \<noteq> [] \<and> last (errs (fst (snd y))) = UnableToAllocate) \<and>
       (fst y = Fits \<longrightarrow>
          allocatedPeak C g (world (fst (snd y))) < l \<and>
          m_MemAllocList (fst (snd y)) = allocatedEntries C g (world (fst (snd y))))"
    for C l g wl y
  have step: "Q C l g wl r"
    if IH: "\<And>C l g s wl prev y. f C l g s wl prev = Some y \<Longrightarrow> Q C l g wl y"
    and eq: "(case planIteration C l g s wl prev of
        Accepted s' \<Rightarrow> Some (Fits, s', wl)
      | Abandoned s' \<Rightarrow> Some (Unallocated, s', wl)
      | Continue s' wl' prev' \<Rightarrow> f C l g s' wl' prev') = Some r"
    for f and C :: "('w, 'p, 'v) Collaborators" and l g s wl prev r
  proof (cases rule: planIteration_cases [of C l g s wl prev])
    case accept
    then show ?thesis using eq by (auto simp: Q_def)
  next
    case (abandon w2)
    then show ?thesis using eq by (auto simp: Q_def)
  next
    case (split g' w2)
    with eq have "f C l g (s\<lparr>m_MemAllocList := allocatedEntries C g (world s), world := w2\<rparr>)
        (wl @ [g']) 0 = Some r" by simp
    from IH [OF this] show ?thesis by (auto simp: Q_def)
  next
    case shrink
    with eq IH show ?thesis by simp
  qed
  have "Q C localMemSize spGraph worklist r"
    by (rule planSubGraph.raw_induct [where P = "\<lambda>C l g s wl prev r. Q C l g wl r", OF step assms])
  then show ?thesis by (simp add: Q_def)
qed

lemma planSubGraph_abandon:
  assumes "splitRequired C localMemSize spGraph (world s) prevMinSize"
      and "splitNewSubGraph C spGraph (resetToOrigSize C spGraph (world s)) = (None, w2)"
  shows "planSubGraph C localMemSize spGraph s worklist prevMinSize =
     Some (Unallocated,
           s\<lparr>m_MemAllocList := allocatedEntries C spGraph (world s), world := w2,
             errs := errs s @ [UnableToAllocate]\<rparr>,
           worklist)"
  by (subst planSubGraph.simps) (simp add: planIteration_split [OF assms(1)] assms(2))

lemma processWorklist_step:
  assumes "worklist \<noteq> []"
      and "planSubGraph C localMemSize (last worklist) (s\<lparr>errs := errs s @ [AllocateOrShrinkSize]\<rparr>)
             (butlast worklist) 0 = Some (outcome, s2, worklist')"
  shows "processWorklist C localMemSize s worklist =
         processWorklist C localMemSize (s2\<lparr>outs := outs s2 @ [NewLine]\<rparr>) worklist'"
  by (subst processWorklist.simps) (simp add: assms Let_def)

lemma runOnModule_with_backend:
  "runOnModule C (Some backend) s =
     map_option (\<lambda>s2. (kModuleNoChanged, s2\<lparr>outs := outs s2 @ [SplitGraphDump]\<rparr>))
       (processWorklist C (getLocalMemSize backend)
          (s\<lparr>m_MemAllocList := [],
             world := newSplitGraphManager C backend
                        (liveAnaly_runOnModule C (scheduler_runOnModule C (world s)))\<rparr>)
          (getSplitGraphs C (newSplitGraphManager C backend
                        (liveAnaly_runOnModule C (scheduler_runOnModule C (world s))))))"
  by (simp add: runOnModule_def Let_def clear_def split: option.splits)

lemma planner_loop_returns:
  fixes C :: "('w, 'p, 'v) Collaborators" and parts steps :: "'w \<Rightarrow> nat"
  assumes budget: "0 < localMemSize"
      and inv_shrink: "\<And>w. Inv w \<Longrightarrow> Inv (shrinkSize C spGraph w)"
      and inv_split: "\<And>w. Inv w \<Longrightarrow> Inv (snd (splitNewSubGraph C spGraph (resetToOrigSize C spGraph w)))"
      and range: "\<And>w. Inv w \<Longrightarrow> 0 \<le> sint (allocatedPeak C spGraph w)"
      and shrink_wf: "\<And>w. Inv w \<Longrightarrow>
             steps (shrinkSize C spGraph w) < steps w \<or>
             getMemUsage C spGraph (shrinkSize C spGraph w) = getMemUsage C spGraph w \<and>
             getLiveIntervals C (shrinkSize C spGraph w) = getLiveIntervals C w"
      and shrink_parts: "\<And>w. Inv w \<Longrightarrow> parts (shrinkSize C spGraph w) \<le> parts w"
      and split_parts: "\<And>w g w'. Inv w \<Longrightarrow>
             splitNewSubGraph C spGraph (resetToOrigSize C spGraph w) = (Some g, w') \<Longrightarrow>
             parts w' < parts w"
      and inv0: "Inv (world s)"
  shows "\<exists>r. planSubGraph C localMemSize spGraph s worklist prevMinSize = Some r"
proof -
  define k where "k w prev =
    (if prev \<noteq> 0 \<and> prev = allocatedPeak C spGraph w then 0 else Suc (steps w))" for w prev
  define R where "R = inv_image (less_than <*lex*> less_than) (\<lambda>(w, prev). (parts w, k w prev))"
  have wfR: "wf R"
    unfolding R_def by (intro wf_inv_image wf_lex_prod wf_less_than)
  have main: "\<forall>s worklist. world s = fst x \<longrightarrow> Inv (fst x) \<longrightarrow>
      (\<exists>r. planSubGraph C localMemSize spGraph s worklist (snd x) = Some r)" for x
    using wfR
  proof (induction x rule: wf_induct_rule)
    case (less x)
    obtain w prev where x: "x = (w, prev)" by (cases x)
    show ?case
    proof (intro allI impI)
      fix s :: "('w, 'v) PassState" and worklist :: "'p list"
      assume ws: "world s = fst x" and "Inv (fst x)"
      then have w: "world s = w" and I: "Inv w" by (simp_all add: x)
      let ?P = "allocatedPeak C spGraph w"
      consider (fits) "?P < localMemSize"
        | (split) "splitRequired C localMemSize spGraph w prev"
        | (shrink) "\<not> ?P < localMemSize" "\<not> (prev \<noteq> 0 \<and> ratioAboveThreshold ?P prev)"
        unfolding splitRequired_def by blast
      then show "\<exists>r. planSubGraph C localMemSize spGraph s worklist (snd x) = Some r"
      proof cases
        case fits
        then show ?thesis
          by (subst planSubGraph.simps) (simp add: x planIteration_accept w)
      next
        case split
        obtain newSpGraph w2 where b:
          "splitNewSubGraph C spGraph (resetToOrigSize C spGraph w) = (newSpGraph, w2)"
          by (cases "splitNewSubGraph C spGraph (resetToOrigSize C spGraph w)")
        show ?thesis
        proof (cases newSpGraph)
          case None
          then show ?thesis
            using split b
            by (subst planSubGraph.simps) (simp add: x planIteration_split w)
        next
          case (Some g)
          have "parts w2 < parts w" using split_parts [OF I] b Some by simp
          then have "((w2, 0), x) \<in> R" by (simp add: R_def x)
          moreover have "Inv w2" using inv_split [OF I] b by simp
          ultimately have "\<exists>r. planSubGraph C localMemSize spGraph
              (s\<lparr>m_MemAllocList := allocatedEntries C spGraph w, world := w2\<rparr>)
              (worklist @ [g]) 0 = Some r"
            using less.IH [of "(w2, 0)"] by simp
          then show ?thesis
            using split b Some
            by (subst planSubGraph.simps) (simp add: x planIteration_split w)
        qed
      next
        case shrink
        let ?w' = "shrinkSize C spGraph w"
        have P0: "?P \<noteq> 0" using shrink(1) budget by (auto simp: word_gt_0)
        have kw: "k w prev = Suc (steps w)"
        proof -
          have "\<not> (prev \<noteq> 0 \<and> prev = ?P)"
            using shrink(2) ratioAboveThreshold_same [OF P0 range [OF I]] by auto
          then show ?thesis by (auto simp: k_def)
        qed
        have "k ?w' ?P < k w prev"
          using shrink_wf [OF I]
        proof
          assume "steps ?w' < steps w"
          then show ?thesis unfolding kw by (simp add: k_def)
        next
          assume "getMemUsage C spGraph ?w' = getMemUsage C spGraph w \<and>
             getLiveIntervals C ?w' = getLiveIntervals C w"
          then have "allocatedPeak C spGraph ?w' = ?P" by (simp add: allocatedPeak_def)
          then show ?thesis unfolding kw using P0 by (simp add: k_def)
        qed
        then have "((?w', ?P), x) \<in> R"
          using shrink_parts [OF I] by (auto simp: R_def x)
        moreover have "Inv ?w'" by (rule inv_shrink [OF I])
        ultimately have "\<exists>r. planSubGraph C localMemSize spGraph
              (s\<lparr>m_MemAllocList := allocatedEntries C spGraph w,
                  errs := errs s @ [ShrinkArrowKb (toFloat (toFloat (of_int (sint ?P)) / 1024))],
                  world := ?w'\<rparr>)
              worklist ?P = Some r"
          using less.IH [of "(?w', ?P)"] by simp
        then show ?thesis
          using shrink
          by (subst planSubGraph.simps) (simp add: x planIteration_shrink w)
      qed
    qed
  qed
  show ?thesis using main [of "(world s, prevMinSize)"] inv0 by simp
qed

lemma wellFounded_fields:
  assumes "shrinkAndSplitWellFounded C Inv steps parts" and "Inv w"
  shows "Inv (shrinkSize C p w)"
    and "Inv (snd (splitNewSubGraph C p (resetToOrigSize C p w)))"
    and "0 \<le> sint (allocatedPeak C p w)"
    and "steps p (shrinkSize C p w) < steps p w \<or>
         getMemUsage C p (shrinkSize C p w) = getMemUsage C p w \<and>
         getLiveIntervals C (shrinkSize C p w) = getLiveIntervals C w"
    and "parts (shrinkSize C p w) \<le> parts w"
    and "splitNewSubGraph C p (resetToOrigSize C p w) = (Some g, w') \<Longrightarrow> parts w' < parts w"
    and "splitNewSubGraph C p (resetToOrigSize C p w) = (None, w') \<Longrightarrow> parts w' \<le> parts w"
proof -
  note H = assms(1) [unfolded shrinkAndSplitWellFounded_def, rule_format, OF assms(2), of p]
  show "Inv (shrinkSize C p w)" by (rule H [THEN conjunct1])
  note H2 = H [THEN conjunct2]
  show "Inv (snd (splitNewSubGraph C p (resetToOrigSize C p w)))" by (rule H2 [THEN conjunct1])
  note H3 = H2 [THEN conjunct2]
  show "0 \<le> sint (allocatedPeak C p w)"
    by (rule below_half_range_sint) (rule H3 [THEN conjunct1])
  note H4 = H3 [THEN conjunct2]
  show "steps p (shrinkSize C p w) < steps p w \<or>
         getMemUsage C p (shrinkSize C p w) = getMemUsage C p w \<and>
         getLiveIntervals C (shrinkSize C p w) = getLiveIntervals C w"
    by (rule H4 [THEN conjunct1])
  note H5 = H4 [THEN conjunct2]
  show "parts (shrinkSize C p w) \<le> parts w" by (rule H5 [THEN conjunct1])
  note c = H5 [THEN conjunct2]
  show "splitNewSubGraph C p (resetToOrigSize C p w) = (Some g, w') \<Longrightarrow> parts w' < parts w"
    using c by simp
  show "splitNewSubGraph C p (resetToOrigSize C p w) = (None, w') \<Longrightarrow> parts w' \<le> parts w"
    using c by simp
qed

lemma planSubGraph_keeps:
  fixes C :: "('w, 'p, 'v) Collaborators" and parts :: "'w \<Rightarrow> nat"
  assumes wf: "shrinkAndSplitWellFounded C Inv steps parts"
      and run: "planSubGraph C localMemSize spGraph s worklist prevMinSize = Some r"
      and inv0: "Inv (world s)"
  shows "Inv (world (fst (snd r))) \<and> parts (world (fst (snd r))) \<le> parts (world s) \<and>
         (snd (snd r) \<noteq> worklist \<longrightarrow> parts (world (fst (snd r))) < parts (world s))"
proof -
  define Q :: "('w, 'p, 'v) Collaborators \<Rightarrow> ('w, 'v) PassState \<Rightarrow> 'p list
      \<Rightarrow> Outcome \<times> ('w, 'v) PassState \<times> 'p list \<Rightarrow> bool" where
    "Q C' s wl y \<longleftrightarrow> (C' = C \<longrightarrow> Inv (world s) \<longrightarrow>
        Inv (world (fst (snd y))) \<and> parts (world (fst (snd y))) \<le> parts (world s) \<and>
        (snd (snd y) \<noteq> wl \<longrightarrow> parts (world (fst (snd y))) < parts (world s)))"
    for C' s wl y
  have step: "Q C' s wl r"
    if IH: "\<And>C' l g s wl prev y. f C' l g s wl prev = Some y \<Longrightarrow> Q C' s wl y"
    and eq: "(case planIteration C' l g s wl prev of
        Accepted s' \<Rightarrow> Some (Fits, s', wl)
      | Abandoned s' \<Rightarrow> Some (Unallocated, s', wl)
      | Continue s' wl' prev' \<Rightarrow> f C' l g s' wl' prev') = Some r"
    for f and C' :: "('w, 'p, 'v) Collaborators" and l g s wl prev r
  proof (cases "C' = C \<and> Inv (world s)")
    case False
    then show ?thesis by (auto simp: Q_def)
  next
    case True
    then have C': "C' = C" and I: "Inv (world s)" by simp_all
    note F = wellFounded_fields [OF wf I]
    show ?thesis
    proof (cases rule: planIteration_cases [of C l g s wl prev])
      case accept
      then show ?thesis using eq I by (auto simp: Q_def C')
    next
      case (abandon w2)
      have "Inv w2" using F(2) [of g] abandon(3) by simp
      moreover have "parts w2 \<le> parts (world s)" using F(7) [OF abandon(3)] .
      ultimately show ?thesis using eq abandon(1) by (auto simp: Q_def C')
    next
      case (split g' w2)
      have I2: "Inv w2" using F(2) [of g] split(3) by simp
      have lt: "parts w2 < parts (world s)" using F(6) [OF split(3)] .
      from split(1) eq have "f C l g (s\<lparr>m_MemAllocList := allocatedEntries C g (world s), world := w2\<rparr>)
          (wl @ [g']) 0 = Some r" by (simp add: C')
      from IH [OF this] I2 lt show ?thesis by (auto simp: Q_def C')
    next
      case shrink
      have I2: "Inv (shrinkSize C g (world s))" by (rule F(1))
      have le: "parts (shrinkSize C g (world s)) \<le> parts (world s)" by (rule F(5))
      from shrink(1) eq have "f C l g
           (s\<lparr>m_MemAllocList := allocatedEntries C g (world s),
               errs := errs s @ [ShrinkArrowKb
                 (toFloat (toFloat (of_int (sint (allocatedPeak C g (world s)))) / 1024))],
               world := shrinkSize C g (world s)\<rparr>)
           wl (allocatedPeak C g (world s)) = Some r" by (simp add: C')
      from IH [OF this] I2 le show ?thesis by (auto simp: Q_def C')
    qed
  qed
  have "Q C s worklist r"
    by (rule planSubGraph.raw_induct [where P = "\<lambda>C l g s wl prev r. Q C s wl r", OF step run])
  then show ?thesis using inv0 by (simp add: Q_def)
qed

lemma planSubGraph_returns:
  fixes C :: "('w, 'p, 'v) Collaborators" and parts :: "'w \<Rightarrow> nat"
  assumes budget: "0 < localMemSize"
      and wf: "shrinkAndSplitWellFounded C Inv steps parts"
      and inv0: "Inv (world s)"
  shows "\<exists>r. planSubGraph C localMemSize spGraph s worklist prevMinSize = Some r"
proof (rule planner_loop_returns [where Inv = Inv and steps = "steps spGraph" and parts = parts])
  show "0 < localMemSize" by (rule budget)
  show "Inv (world s)" by (rule inv0)
next
  fix w assume I: "Inv w"
  note F = wellFounded_fields [OF wf I]
  show "Inv (shrinkSize C spGraph w)" by (rule F(1))
  show "Inv (snd (splitNewSubGraph C spGraph (resetToOrigSize C spGraph w)))" by (rule F(2))
  show "0 \<le> sint (allocatedPeak C spGraph w)" by (rule F(3))
  show "steps spGraph (shrinkSize C spGraph w) < steps spGraph w \<or>
         getMemUsage C spGraph (shrinkSize C spGraph w) = getMemUsage C spGraph w \<and>
         getLiveIntervals C (shrinkSize C spGraph w) = getLiveIntervals C w" by (rule F(4))
  show "parts (shrinkSize C spGraph w) \<le> parts w" by (rule F(5))
next
  fix w g w' assume I: "Inv w"
    and s: "splitNewSubGraph C spGraph (resetToOrigSize C spGraph w) = (Some g, w')"
  show "parts w' < parts w" by (rule wellFounded_fields(6) [OF wf I s])
qed

lemma processWorklist_returns:
  fixes C :: "('w, 'p, 'v) Collaborators" and parts :: "'w \<Rightarrow> nat"
  assumes budget: "0 < localMemSize"
      and wf: "shrinkAndSplitWellFounded C Inv steps parts"
      and inv0: "Inv (world s)"
  shows "\<exists>s'. processWorklist C localMemSize s worklist = Some s'"
proof -
  define R where "R = inv_image (less_than <*lex*> less_than)
      (\<lambda>(w :: 'w, wl :: 'p list). (parts w, length wl))"
  have wfR: "wf R"
    unfolding R_def by (intro wf_inv_image wf_lex_prod wf_less_than)
  have main: "\<forall>s. world s = fst x \<longrightarrow> Inv (fst x) \<longrightarrow>
      (\<exists>s'. processWorklist C localMemSize s (snd x) = Some s')" for x
    using wfR
  proof (induction x rule: wf_induct_rule)
    case (less x)
    obtain w wl where x: "x = (w, wl)" by (cases x)
    show ?case
    proof (intro allI impI)
      fix s :: "('w, 'v) PassState"
      assume "world s = fst x" and "Inv (fst x)"
      then have w: "world s = w" and I: "Inv w" by (simp_all add: x)
      show "\<exists>s'. processWorklist C localMemSize s (snd x) = Some s'"
      proof (cases "wl = []")
        case True
        then show ?thesis by (subst processWorklist.simps) (simp add: x)
      next
        case False
        let ?s1 = "s\<lparr>errs := errs s @ [AllocateOrShrinkSize]\<rparr>"
        have I1: "Inv (world ?s1)" using I w by simp
        obtain r where r: "planSubGraph C localMemSize (last wl) ?s1 (butlast wl) 0 = Some r"
          using planSubGraph_returns [OF budget wf I1] by blast
        obtain outcome s2 wl' where r3: "r = (outcome, s2, wl')" by (cases r)
        from planSubGraph_result [OF r] obtain pushed where p: "wl' = butlast wl @ pushed"
          by (auto simp: r3)
        from planSubGraph_keeps [OF wf r I1]
        have I2: "Inv (world s2)" and le: "parts (world s2) \<le> parts w"
          and lt: "wl' \<noteq> butlast wl \<Longrightarrow> parts (world s2) < parts w"
          by (simp_all add: r3 w)
        have "((world s2, wl'), x) \<in> R"
        proof (cases "pushed = []")
          case True
          then have "length wl' < length wl" using False p by simp
          then show ?thesis using le by (auto simp: R_def x)
        next
          case False
          then have "wl' \<noteq> butlast wl" using p by simp
          from lt [OF this] show ?thesis by (simp add: R_def x)
        qed
        then have "\<exists>s'. processWorklist C localMemSize (s2\<lparr>outs := outs s2 @ [NewLine]\<rparr>) wl' = Some s'"
          using less.IH [of "(world s2, wl')"] I2 by simp
        moreover have "processWorklist C localMemSize s wl =
            processWorklist C localMemSize (s2\<lparr>outs := outs s2 @ [NewLine]\<rparr>) wl'"
          by (rule processWorklist_step [OF False]) (use r r3 in simp)
        ultimately show ?thesis by (simp add: x)
      qed
    qed
  qed
  show ?thesis using main [of "(world s, worklist)"] inv0 by simp
qed

lemma runOnModule_returns:
  fixes C :: "('w, 'p, 'v) Collaborators" and parts :: "'w \<Rightarrow> nat"
  assumes "0 < getLocalMemSize backend"
      and "shrinkAndSplitWellFounded C Inv steps parts"
      and "Inv (newSplitGraphManager C backend
                 (liveAnaly_runOnModule C (scheduler_runOnModule C (world s))))"
  shows "\<exists>s'. runOnModule C (Some backend) s = Some (kModuleNoChanged, s')"
proof -
  let ?w = "newSplitGraphManager C backend
                 (liveAnaly_runOnModule C (scheduler_runOnModule C (world s)))"
  have "Inv (world (s\<lparr>m_MemAllocList := [], world := ?w\<rparr>))" using assms(3) by simp
  from processWorklist_returns [OF assms(1) assms(2) this]
  obtain s' where "processWorklist C (getLocalMemSize backend)
      (s\<lparr>m_MemAllocList := [], world := ?w\<rparr>) (getSplitGraphs C ?w) = Some s'"
    by blast
  then show ?thesis by (simp add: runOnModule_with_backend)
qed

section \<open>The concrete collaborators\<close>

lemma exC_fields:
  "scheduler_runOnModule exC w = w\<lparr>calls := calls w @ [Scheduled]\<rparr>"
  "liveAnaly_runOnModule exC w = w\<lparr>calls := calls w @ [LivenessComputed]\<rparr>"
  "newSplitGraphManager exC b w = w\<lparr>calls := calls w @ [ManagerBuilt]\<rparr>"
  "getSplitGraphs exC w = [GraphA, GraphB]"
  "shrinkSize exC p w =
     w\<lparr>curSize := (curSize w)(p := if 600 \<le> curSize w p div 2 then curSize w p div 2 else curSize w p),
       calls := calls w @ [Shrunk p]\<rparr>"
  "resetToOrigSize exC p w = w\<lparr>curSize := (curSize w)(p := origSize w p), calls := calls w @ [Reset p]\<rparr>"
  "splitNewSubGraph exC p w =
     (if 2000 \<le> origSize w p
      then (Some GraphC, w\<lparr>curSize := (curSize w)(p := origSize w p div 2, GraphC := origSize w p div 2),
                         origSize := (origSize w)(p := origSize w p div 2, GraphC := origSize w p div 2),
                         calls := calls w @ [SplitAsked p]\<rparr>)
      else (None, w\<lparr>calls := calls w @ [SplitAsked p]\<rparr>))"
  by (simp_all add: exC_def)

lemma exC_allocated:
  "allocatedPeak exC p w = curSize w p"
  "allocatedEntries exC p w =
     [\<lparr>startAddr = 0, size_e = curSize w p,
       liveIntrvl = \<lparr>getValue = p, getStart = (case p of GraphA \<Rightarrow> 0 | GraphB \<Rightarrow> 1 | GraphC \<Rightarrow> 2),
                     getEnd = (case p of GraphA \<Rightarrow> 0 | GraphB \<Rightarrow> 1 | GraphC \<Rightarrow> 2)\<rparr>\<rparr>]"
  by (cases p; simp add: allocatedPeak_def allocatedEntries_def exC_def allocByLiveness_def clear_def
        allocOne_def GetUsedMemRegions_def Let_def)+

lemma half_le: "(x :: 64 word) div 2 \<le> x"
  by (simp add: word_le_nat_alt unat_div)

lemma half_less: "(600 :: 64 word) \<le> x div 2 \<Longrightarrow> unat (x div 2) < unat x"
  by (simp add: word_le_nat_alt unat_div)

lemma half_less2: "(2000 :: 64 word) \<le> x \<Longrightarrow> unat (x div 2) < unat x"
  by (simp add: word_le_nat_alt unat_div)

lemma half_small: "(x :: 64 word) \<le> 2000 \<Longrightarrow> \<not> 2000 \<le> x div 2"
  by (simp add: word_le_nat_alt unat_div)

lemma half_bounded: "(x :: 64 word) \<le> 2000 \<Longrightarrow> x div 2 \<le> 2000"
  using half_le [of x] by (rule order_trans)

lemma exSizesBounded_at:
  assumes "exSizesBounded w"
  shows "curSize w p \<le> 2000" and "origSize w p \<le> 2000"
  using assms by (cases p; simp add: exSizesBounded_def)+

lemma exSizesBounded_upd:
  assumes "exSizesBounded w" and "c \<le> 2000"
  shows "exSizesBounded (w\<lparr>curSize := (curSize w)(p := c), calls := k\<rparr>)"
    and "exSizesBounded (w\<lparr>curSize := (curSize w)(p := c, GraphC := c),
                           origSize := (origSize w)(p := c, GraphC := c), calls := k\<rparr>)"
  using assms by (cases p; simp add: exSizesBounded_def)+

lemma exC_wellFounded: "shrinkAndSplitWellFounded exC exSizesBounded exSteps exUnsplit"
  unfolding shrinkAndSplitWellFounded_def
proof (intro allI impI conjI)
  fix p w assume I: "exSizesBounded w"
  note c = exSizesBounded_at(1) [OF I, of p] and o = exSizesBounded_at(2) [OF I, of p]
  show "exSizesBounded (shrinkSize exC p w)"
    unfolding exC_fields
    by (rule exSizesBounded_upd(1) [OF I]) (simp_all add: c half_bounded [OF c])
  have R: "exSizesBounded (resetToOrigSize exC p w)"
    unfolding exC_fields by (rule exSizesBounded_upd(1) [OF I o])
  have Ro: "origSize (resetToOrigSize exC p w) = origSize w"
    by (simp add: exC_fields)
  show "exSizesBounded (snd (splitNewSubGraph exC p (resetToOrigSize exC p w)))"
  proof (cases "2000 \<le> origSize w p")
    case True
    then show ?thesis
      using exSizesBounded_upd(2) [OF R half_bounded [OF o], where p = p]
      by (simp add: exC_fields [where w = "resetToOrigSize exC p w"] Ro)
  next
    case False
    then show ?thesis
      using R
      by (simp add: exC_fields [where w = "resetToOrigSize exC p w"] Ro exSizesBounded_def)
  qed
  have "curSize w p < 9223372036854775808" using c by (rule le_less_trans) simp
  then show "allocatedPeak exC p w < 9223372036854775808" by (simp only: exC_allocated)
  show "exSteps p (shrinkSize exC p w) < exSteps p w \<or>
        getMemUsage exC p (shrinkSize exC p w) = getMemUsage exC p w \<and>
        getLiveIntervals exC (shrinkSize exC p w) = getLiveIntervals exC w"
    using half_less [of "curSize w p"] by (auto simp: exC_def exSteps_def)
  show "exUnsplit (shrinkSize exC p w) \<le> exUnsplit w"
    by (simp add: exC_fields exUnsplit_def)
  show "case splitNewSubGraph exC p (resetToOrigSize exC p w) of
          (Some g, w') \<Rightarrow> exUnsplit w' < exUnsplit w
        | (None, w') \<Rightarrow> exUnsplit w' \<le> exUnsplit w"
  proof (cases "2000 \<le> origSize w p")
    case True
    then obtain w' where s: "splitNewSubGraph exC p (resetToOrigSize exC p w) = (Some GraphC, w')"
      and o': "origSize w' = (origSize w)(p := origSize w p div 2, GraphC := origSize w p div 2)"
      by (simp add: exC_fields [where w = "resetToOrigSize exC p w"] Ro)
    have "exUnsplit w' < exUnsplit w"
      using True half_small [OF o] by (cases p; simp add: exUnsplit_def o')
    then show ?thesis by (simp add: s)
  next
    case False
    then show ?thesis
      by (simp add: exC_fields [where w = "resetToOrigSize exC p w"] Ro exUnsplit_def)
  qed
qed

lemma ex_planB:
  "\<exists>s2. planSubGraph exC 500 GraphB (s\<lparr>world := w\<lparr>curSize := (curSize w)(GraphB := 1000),
                                                      origSize := (origSize w)(GraphB := 1000)\<rparr>,
                                           errs := e\<rparr>) wl 0
       = Some (Unallocated, s2, wl) \<and>
     errs s2 = e @ [ShrinkArrowKb (toFloat (toFloat (of_int (sint (1000 :: 64 word))) / 1024)), UnableToAllocate] \<and>
     outs s2 = outs s \<and>
     calls (world s2) = calls w @ [Shrunk GraphB, Reset GraphB, SplitAsked GraphB] \<and>
     curSize (world s2) GraphA = curSize w GraphA"
  apply (subst planSubGraph.simps)
  apply (subst planIteration_shrink)
    apply (simp_all add: exC_allocated)
  apply (subst planSubGraph.simps)
  apply (subst planIteration_split)
   apply (simp add: splitRequired_def exC_allocated exC_fields ratio_1000)
  apply (simp add: exC_fields)
  done

lemma ex_planA:
  "curSize (world s) GraphA = 100 \<Longrightarrow>
   planSubGraph exC 500 GraphA s wl 0 =
     Some (Fits, s\<lparr>m_MemAllocList := allocatedEntries exC GraphA (world s)\<rparr>, wl)"
  by (subst planSubGraph.simps) (simp add: planIteration_accept exC_allocated)

lemma huge_peak: "allocatedPeak hugeC g w = 9223372036854775808"
  by (simp add: allocatedPeak_def hugeC_def allocByLiveness_def clear_def allocOne_def
        GetUsedMemRegions_def Let_def)

lemma huge_iteration:
  assumes "prev = 0 \<or> prev = 9223372036854775808"
  shows "\<exists>s'. planIteration hugeC 1024 g s wl prev = Continue s' wl 9223372036854775808"
proof -
  have 1: "\<not> allocatedPeak hugeC g (world s) < 1024" by (simp add: huge_peak)
  have 2: "\<not> (prev \<noteq> 0 \<and> ratioAboveThreshold (allocatedPeak hugeC g (world s)) prev)"
    using assms huge_ratio by (auto simp: huge_peak)
  show ?thesis
    unfolding planIteration_shrink [OF 1 2] huge_peak by simp
qed

lemma huge_never_returns:
  "planSubGraph hugeC 1024 g s wl prev = Some r \<Longrightarrow> \<not> (prev = 0 \<or> prev = 9223372036854775808)"
proof -
  assume a: "planSubGraph hugeC 1024 g s wl prev = Some r"
  define P :: "(unit, unit, unit) Collaborators \<Rightarrow> 64 word \<Rightarrow> unit \<Rightarrow> (unit, unit) PassState
      \<Rightarrow> unit list \<Rightarrow> 64 word \<Rightarrow> Outcome \<times> (unit, unit) PassState \<times> unit list \<Rightarrow> bool" where
    "P C l g s wl prev r \<longleftrightarrow> \<not> (C = hugeC \<and> l = 1024 \<and> (prev = 0 \<or> prev = 9223372036854775808))"
    for C l g s wl prev r
  have step: "P C l g s wl prev r"
    if IH: "\<And>C l g s wl prev y. f C l g s wl prev = Some y \<Longrightarrow> P C l g s wl prev y"
    and eq: "(case planIteration C l g s wl prev of
        Accepted s' \<Rightarrow> Some (Fits, s', wl)
      | Abandoned s' \<Rightarrow> Some (Unallocated, s', wl)
      | Continue s' wl' prev' \<Rightarrow> f C l g s' wl' prev') = Some r"
    for f C l g s wl prev r
  proof (cases "C = hugeC \<and> l = 1024 \<and> (prev = 0 \<or> prev = 9223372036854775808)")
    case False
    then show ?thesis by (simp add: P_def)
  next
    case True
    then obtain s' where "planIteration C l g s wl prev = Continue s' wl 9223372036854775808"
      using huge_iteration [of prev g s wl] by auto
    with eq have "f C l g s' wl 9223372036854775808 = Some r" by simp
    from IH [OF this] True show ?thesis by (simp add: P_def)
  qed
  have "P hugeC 1024 g s wl prev r"
    by (rule planSubGraph.raw_induct [where P = P, OF step a])
  then show ?thesis by (simp add: P_def)
qed

lemma huge_loop_None: "planSubGraph hugeC 1024 g s wl 0 = None"
proof (cases "planSubGraph hugeC 1024 g s wl 0")
  case None
  then show ?thesis .
next
  case (Some r)
  from huge_never_returns [OF this] show ?thesis by simp
qed

lemma huge_pass_diverges:
  "runOnModule hugeC (Some \<lparr>getLocalMemSize = 1024\<rparr>) (emptyState ()) = None"
proof -
  have "processWorklist hugeC 1024 s [()] = None" for s
    by (subst processWorklist.simps) (simp add: huge_loop_None Let_def)
  moreover have "getSplitGraphs hugeC w = [()]" for w by (simp add: hugeC_def)
  ultimately show ?thesis by (simp add: runOnModule_def Let_def)
qed

section \<open>The pass without a backend\<close>

text \<open>
  Claim C6. With a null \<open>m_DLATB\<close>, \<open>runOnModule\<close> returns \<open>kPassFailure\<close> at
  once. The state it returns is the state it was given with the one message on
  \<open>errs\<close>: whatever the scheduler, the liveness analysis and the split graph
  manager would do, the store is untouched, and so is the entry list.
\<close>

theorem runOnModule_without_backend:
  "runOnModule C None s = Some (kPassFailure, s\<lparr>errs := errs s @ [NoBackendInformation]\<rparr>)"
  by (simp add: runOnModule_def)

section \<open>Shrink or split\<close>

text \<open>
  Claim C5. When an iteration decides to split (\<open>splitRequired\<close>), the split is
  asked of the store that \<open>resetToOrigSize\<close> returns, so of the original sizes; if
  a new split graph comes back it is pushed on the worklist and the loop goes on
  for the same split graph with \<open>prevMinSize = 0\<close>.
\<close>

theorem split_resets_sizes_first:
  assumes "splitRequired C localMemSize spGraph (world s) prevMinSize"
  shows "planIteration C localMemSize spGraph s worklist prevMinSize =
    (case splitNewSubGraph C spGraph (resetToOrigSize C spGraph (world s)) of
       (Some g, w2) \<Rightarrow>
          Continue (s\<lparr>m_MemAllocList := allocatedEntries C spGraph (world s), world := w2\<rparr>)
            (worklist @ [g]) 0
     | (None, w2) \<Rightarrow>
          Abandoned (s\<lparr>m_MemAllocList := allocatedEntries C spGraph (world s), world := w2,
                        errs := errs s @ [UnableToAllocate]\<rparr>))"
  using assms by (rule planIteration_split)

theorem split_resets_sizes_first_witness:
  "splitRequired exC 500 GraphB (world (exState 1900 2000)) 2000 \<and>
   (\<exists>s'. planIteration exC 500 GraphB (exState 1900 2000) [GraphA] 2000 =
           Continue s' [GraphA, GraphC] 0 \<and>
         calls (world s') = [Reset GraphB, SplitAsked GraphB] \<and>
         curSize (world s') GraphB = 1000 \<and> curSize (world s') GraphC = 1000)"
proof -
  have r: "splitRequired exC 500 GraphB (world (exState 1900 2000)) 2000"
    by (simp add: splitRequired_def exC_allocated exState_def exWorld_def ratio_1900)
  show ?thesis
    using r split_resets_sizes_first [OF r, of "[GraphA]"]
    by (simp add: exC_fields exState_def exWorld_def)
qed

text \<open>
  Claim C3, as amended. Let \<open>prevMinSize\<close> be below \<open>2^63\<close>. An allocation that
  does not fit leads to a split exactly when \<open>prevMinSize\<close> is not 0 and the
  quotient of the two sizes, each converted to single precision and divided in
  single precision, is above the single-precision constant \<open>0.9f\<close>. Otherwise
  the iteration logs one line, sets \<open>prevMinSize = minSize\<close>, calls \<open>shrinkSize\<close>
  and the loop goes on. Whenever both sizes are below \<open>2^24\<close> (and so are
  converted exactly) the test holds exactly when \<open>minSize / prevMinSize > 9/10\<close>.
  It holds for 950 against 1000 and fails for 850 against 1000.
\<close>

theorem shrink_or_split_by_float_ratio:
  assumes "\<not> allocatedPeak C spGraph (world s) < localMemSize"
      and "prevMinSize < 9223372036854775808"
  shows
   "(prevMinSize \<noteq> 0 \<and> floatRatioAbove (allocatedPeak C spGraph (world s)) prevMinSize \<longrightarrow>
       planIteration C localMemSize spGraph s worklist prevMinSize =
         (case splitNewSubGraph C spGraph (resetToOrigSize C spGraph (world s)) of
            (Some g, w2) \<Rightarrow>
               Continue (s\<lparr>m_MemAllocList := allocatedEntries C spGraph (world s), world := w2\<rparr>)
                 (worklist @ [g]) 0
          | (None, w2) \<Rightarrow>
               Abandoned (s\<lparr>m_MemAllocList := allocatedEntries C spGraph (world s), world := w2,
                             errs := errs s @ [UnableToAllocate]\<rparr>)))
    \<and> (\<not> (prevMinSize \<noteq> 0 \<and> floatRatioAbove (allocatedPeak C spGraph (world s)) prevMinSize) \<longrightarrow>
         (\<exists>kb. planIteration C localMemSize spGraph s worklist prevMinSize =
           Continue
             (s\<lparr>m_MemAllocList := allocatedEntries C spGraph (world s),
                 errs := errs s @ [ShrinkArrowKb kb],
                 world := shrinkSize C spGraph (world s)\<rparr>)
             worklist (allocatedPeak C spGraph (world s))))
    \<and> (allocatedPeak C spGraph (world s) < 16777216 \<and> prevMinSize \<noteq> 0 \<and> prevMinSize < 16777216 \<longrightarrow>
         (floatRatioAbove (allocatedPeak C spGraph (world s)) prevMinSize \<longleftrightarrow>
          9 * unat prevMinSize < 10 * unat (allocatedPeak C spGraph (world s))))
    \<and> floatRatioAbove 950 1000 \<and> \<not> floatRatioAbove 850 1000"
proof (intro conjI impI)
  note eq = floatRatioAbove_code [OF assms(2), symmetric]
  {
    assume a: "prevMinSize \<noteq> 0 \<and> floatRatioAbove (allocatedPeak C spGraph (world s)) prevMinSize"
    show "planIteration C localMemSize spGraph s worklist prevMinSize =
           (case splitNewSubGraph C spGraph (resetToOrigSize C spGraph (world s)) of
              (Some g, w2) \<Rightarrow>
                 Continue (s\<lparr>m_MemAllocList := allocatedEntries C spGraph (world s), world := w2\<rparr>)
                   (worklist @ [g]) 0
            | (None, w2) \<Rightarrow>
                 Abandoned (s\<lparr>m_MemAllocList := allocatedEntries C spGraph (world s), world := w2,
                               errs := errs s @ [UnableToAllocate]\<rparr>))"
      by (rule planIteration_split) (use assms(1) a in \<open>simp add: splitRequired_def eq\<close>)
  }
  {
    assume "\<not> (prevMinSize \<noteq> 0 \<and> floatRatioAbove (allocatedPeak C spGraph (world s)) prevMinSize)"
    then have "\<not> (prevMinSize \<noteq> 0 \<and> ratioAboveThreshold (allocatedPeak C spGraph (world s)) prevMinSize)"
      by (simp add: eq)
    from planIteration_shrink [OF assms(1) this]
    show "\<exists>kb. planIteration C localMemSize spGraph s worklist prevMinSize =
           Continue
             (s\<lparr>m_MemAllocList := allocatedEntries C spGraph (world s),
                 errs := errs s @ [ShrinkArrowKb kb],
                 world := shrinkSize C spGraph (world s)\<rparr>)
             worklist (allocatedPeak C spGraph (world s))"
      by blast
  }
  {
    assume b: "allocatedPeak C spGraph (world s) < 16777216 \<and> prevMinSize \<noteq> 0 \<and> prevMinSize < 16777216"
    then have "ratioAboveThreshold (allocatedPeak C spGraph (world s)) prevMinSize \<longleftrightarrow>
            9 * unat prevMinSize < 10 * unat (allocatedPeak C spGraph (world s))"
      by (intro ratioAboveThreshold_exact) simp_all
    then show "floatRatioAbove (allocatedPeak C spGraph (world s)) prevMinSize \<longleftrightarrow>
            9 * unat prevMinSize < 10 * unat (allocatedPeak C spGraph (world s))"
      by (simp add: eq)
  }
  show "floatRatioAbove 950 1000"
    using ratio_950 floatRatioAbove_code [of 1000 950] by simp
  show "\<not> floatRatioAbove 850 1000"
    using ratio_850 floatRatioAbove_code [of 1000 850] by simp
qed

theorem shrink_or_split_by_float_ratio_witness:
  "(\<exists>s'. planIteration exC 500 GraphB (exState 950 2000) [GraphA] 1000 =
           Continue s' [GraphA, GraphC] 0 \<and>
         calls (world s') = [Reset GraphB, SplitAsked GraphB]) \<and>
   (\<exists>s'. planIteration exC 500 GraphB (exState 850 2000) [GraphA] 1000 =
           Continue s' [GraphA] 850 \<and>
         calls (world s') = [Shrunk GraphB])"
proof -
  have 1: "\<not> allocatedPeak exC GraphB (world (exState 950 2000)) < 500"
    by (simp add: exC_allocated exState_def exWorld_def)
  have 2: "\<not> allocatedPeak exC GraphB (world (exState 850 2000)) < 500"
    by (simp add: exC_allocated exState_def exWorld_def)
  have 3: "(1000 :: 64 word) < 9223372036854775808" by simp
  show ?thesis
    using shrink_or_split_by_float_ratio [OF 1 3, of "[GraphA]"]
          shrink_or_split_by_float_ratio [OF 2 3, of "[GraphA]"]
    by (auto simp add: exC_allocated exC_fields exState_def exWorld_def)
qed

text \<open>
  The claim as it is written, with the exact quotient, fails: for the sizes
  900000001 after 1000000000 the quotient is above \<open>9/10\<close>, but 900000001 is
  converted to 900000000, the single-precision quotient is the number \<open>0.9f\<close>
  itself, and the iteration shrinks.
\<close>

theorem exact_ratio_above_but_shrinks:
  "\<not> allocatedPeak exC GraphB (world (exState 900000001 900000001)) < 500 \<and>
   (1000000000 :: 64 word) \<noteq> 0 \<and>
   (9 / 10 :: rat) < 900000001 / 1000000000 \<and>
   \<not> splitRequired exC 500 GraphB (world (exState 900000001 900000001)) 1000000000 \<and>
   planIteration exC 500 GraphB (exState 900000001 900000001) [GraphA] 1000000000 =
     Continue
       ((exState 900000001 900000001)
          \<lparr>m_MemAllocList := allocatedEntries exC GraphB (world (exState 900000001 900000001)),
           errs := errs (exState 900000001 900000001) @
             [ShrinkArrowKb (toFloat (toFloat (of_int (sint (900000001 :: 64 word))) / 1024))],
           world := shrinkSize exC GraphB (world (exState 900000001 900000001))\<rparr>)
       [GraphA] 900000001"
proof -
  have 1: "\<not> allocatedPeak exC GraphB (world (exState 900000001 900000001)) < 500"
    by (simp add: exC_allocated exState_def exWorld_def)
  have p: "allocatedPeak exC GraphB (world (exState 900000001 900000001)) = 900000001"
    by (simp add: exC_allocated exState_def exWorld_def)
  have 2: "\<not> (1000000000 \<noteq> (0 :: 64 word) \<and>
      ratioAboveThreshold (allocatedPeak exC GraphB (world (exState 900000001 900000001))) 1000000000)"
    using ratio_boundary by (simp add: p)
  have 3: "\<not> splitRequired exC 500 GraphB (world (exState 900000001 900000001)) 1000000000"
    using 2 by (simp add: splitRequired_def)
  show ?thesis
    using 1 3 planIteration_shrink [OF 1 2, of "[GraphA]"] by (simp add: p)
qed

section \<open>A split graph that cannot be split\<close>

text \<open>
  Claim C7. If an iteration decides to split and \<open>splitNewSubGraph\<close> returns no
  split graph, the loop for this split graph ends there with the message that no
  memory could be allocated, the worklist as it was. Whenever the loop for the last
  split graph of the worklist ends this way, its last message is that one and the
  worklist it leaves is the rest of the worklist (with what was pushed meanwhile);
  if the worklist loop returns the state \<open>t3\<close> on that rest, it returns \<open>t3\<close> on
  the whole worklist. A pass with a backend whose worklist loop returns a state
  returns \<open>kModuleNoChanged\<close> with that state and the dump of the split graphs.
  Under the conditions \<open>shrinkAndSplitWellFounded\<close>, with a positive local memory
  size, the worklist loop does return after such a split graph, on the rest and on
  the whole worklist, and the pass returns \<open>kModuleNoChanged\<close>.
\<close>

theorem abandoned_subgraph_does_not_stop_the_pass:
  fixes C :: "('w, 'p, 'v) Collaborators" and parts :: "'w \<Rightarrow> nat"
  shows
   "(splitRequired C localMemSize spGraph (world s) prevMinSize \<and>
     splitNewSubGraph C spGraph (resetToOrigSize C spGraph (world s)) = (None, w2) \<longrightarrow>
       planSubGraph C localMemSize spGraph s worklist prevMinSize =
         Some (Unallocated,
               s\<lparr>m_MemAllocList := allocatedEntries C spGraph (world s), world := w2,
                 errs := errs s @ [UnableToAllocate]\<rparr>,
               worklist))
    \<and> (todo \<noteq> [] \<and>
        planSubGraph C localMemSize (last todo) (t\<lparr>errs := errs t @ [AllocateOrShrinkSize]\<rparr>)
          (butlast todo) 0 = Some (Unallocated, t2, todo') \<and>
        processWorklist C localMemSize (t2\<lparr>outs := outs t2 @ [NewLine]\<rparr>) todo' = Some t3 \<longrightarrow>
          last (errs t2) = UnableToAllocate \<and>
          (\<exists>pushed. todo' = butlast todo @ pushed) \<and>
          processWorklist C localMemSize t todo = Some t3)
    \<and> (processWorklist C (getLocalMemSize backend)
          (s0\<lparr>m_MemAllocList := [],
              world := newSplitGraphManager C backend
                         (liveAnaly_runOnModule C (scheduler_runOnModule C (world s0)))\<rparr>)
          (getSplitGraphs C (newSplitGraphManager C backend
                         (liveAnaly_runOnModule C (scheduler_runOnModule C (world s0))))) = Some t4 \<longrightarrow>
        runOnModule C (Some backend) s0 =
          Some (kModuleNoChanged, t4\<lparr>outs := outs t4 @ [SplitGraphDump]\<rparr>))
    \<and> (0 < localMemSize \<and> shrinkAndSplitWellFounded C Inv steps parts \<and> Inv (world t) \<and>
        todo \<noteq> [] \<and>
        planSubGraph C localMemSize (last todo) (t\<lparr>errs := errs t @ [AllocateOrShrinkSize]\<rparr>)
          (butlast todo) 0 = Some (Unallocated, t2, todo') \<longrightarrow>
          (\<exists>t5. processWorklist C localMemSize (t2\<lparr>outs := outs t2 @ [NewLine]\<rparr>) todo' = Some t5 \<and>
                processWorklist C localMemSize t todo = Some t5))
    \<and> (0 < getLocalMemSize backend \<and> shrinkAndSplitWellFounded C Inv steps parts \<and>
        Inv (newSplitGraphManager C backend
               (liveAnaly_runOnModule C (scheduler_runOnModule C (world s0)))) \<longrightarrow>
          (\<exists>s3. runOnModule C (Some backend) s0 = Some (kModuleNoChanged, s3)))"
proof (intro conjI impI)
  assume "splitRequired C localMemSize spGraph (world s) prevMinSize \<and>
     splitNewSubGraph C spGraph (resetToOrigSize C spGraph (world s)) = (None, w2)"
  then show "planSubGraph C localMemSize spGraph s worklist prevMinSize =
         Some (Unallocated,
               s\<lparr>m_MemAllocList := allocatedEntries C spGraph (world s), world := w2,
                 errs := errs s @ [UnableToAllocate]\<rparr>,
               worklist)"
    by (intro planSubGraph_abandon) simp_all
next
  assume a: "todo \<noteq> [] \<and>
        planSubGraph C localMemSize (last todo) (t\<lparr>errs := errs t @ [AllocateOrShrinkSize]\<rparr>)
          (butlast todo) 0 = Some (Unallocated, t2, todo') \<and>
        processWorklist C localMemSize (t2\<lparr>outs := outs t2 @ [NewLine]\<rparr>) todo' = Some t3"
  then have p: "planSubGraph C localMemSize (last todo) (t\<lparr>errs := errs t @ [AllocateOrShrinkSize]\<rparr>)
          (butlast todo) 0 = Some (Unallocated, t2, todo')" by simp
  note R = planSubGraph_result [OF p]
  show "last (errs t2) = UnableToAllocate" using R by simp
  show "\<exists>pushed. todo' = butlast todo @ pushed" using R by simp
  have "processWorklist C localMemSize t todo =
            processWorklist C localMemSize (t2\<lparr>outs := outs t2 @ [NewLine]\<rparr>) todo'"
    using a by (intro processWorklist_step) simp_all
  then show "processWorklist C localMemSize t todo = Some t3" using a by simp
next
  assume "processWorklist C (getLocalMemSize backend)
          (s0\<lparr>m_MemAllocList := [],
              world := newSplitGraphManager C backend
                         (liveAnaly_runOnModule C (scheduler_runOnModule C (world s0)))\<rparr>)
          (getSplitGraphs C (newSplitGraphManager C backend
                         (liveAnaly_runOnModule C (scheduler_runOnModule C (world s0))))) = Some t4"
  then show "runOnModule C (Some backend) s0 =
          Some (kModuleNoChanged, t4\<lparr>outs := outs t4 @ [SplitGraphDump]\<rparr>)"
    by (simp add: runOnModule_with_backend)
next
  assume a: "0 < localMemSize \<and> shrinkAndSplitWellFounded C Inv steps parts \<and> Inv (world t) \<and>
        todo \<noteq> [] \<and>
        planSubGraph C localMemSize (last todo) (t\<lparr>errs := errs t @ [AllocateOrShrinkSize]\<rparr>)
          (butlast todo) 0 = Some (Unallocated, t2, todo')"
  then have b: "0 < localMemSize" and wf: "shrinkAndSplitWellFounded C Inv steps parts"
    and ne: "todo \<noteq> []"
    and p: "planSubGraph C localMemSize (last todo) (t\<lparr>errs := errs t @ [AllocateOrShrinkSize]\<rparr>)
          (butlast todo) 0 = Some (Unallocated, t2, todo')"
    and I: "Inv (world (t\<lparr>errs := errs t @ [AllocateOrShrinkSize]\<rparr>))"
    by simp_all
  have "Inv (world (t2\<lparr>outs := outs t2 @ [NewLine]\<rparr>))"
    using planSubGraph_keeps [OF wf p I] by simp
  from processWorklist_returns [OF b wf this]
  obtain t5 where t5: "processWorklist C localMemSize (t2\<lparr>outs := outs t2 @ [NewLine]\<rparr>) todo' = Some t5"
    by blast
  have "processWorklist C localMemSize t todo =
            processWorklist C localMemSize (t2\<lparr>outs := outs t2 @ [NewLine]\<rparr>) todo'"
    by (rule processWorklist_step [OF ne p])
  with t5 show "\<exists>t5. processWorklist C localMemSize (t2\<lparr>outs := outs t2 @ [NewLine]\<rparr>) todo' = Some t5 \<and>
                processWorklist C localMemSize t todo = Some t5"
    by simp
next
  assume "0 < getLocalMemSize backend \<and> shrinkAndSplitWellFounded C Inv steps parts \<and>
        Inv (newSplitGraphManager C backend
               (liveAnaly_runOnModule C (scheduler_runOnModule C (world s0))))"
  then show "\<exists>s3. runOnModule C (Some backend) s0 = Some (kModuleNoChanged, s3)"
    by (intro runOnModule_returns [where Inv = Inv and steps = steps and parts = parts]) simp_all
qed

theorem abandoned_subgraph_does_not_stop_the_pass_witness:
  "shrinkAndSplitWellFounded exC exSizesBounded exSteps exUnsplit \<and>
   (\<exists>s3. runOnModule exC (Some \<lparr>getLocalMemSize = 500\<rparr>) (exState 1000 1000) = Some (kModuleNoChanged, s3) \<and>
     errs s3 = [AllocateOrShrinkSize,
                ShrinkArrowKb (toFloat (toFloat (of_int (sint (1000 :: 64 word))) / 1024)),
                UnableToAllocate, AllocateOrShrinkSize] \<and>
     outs s3 = [NewLine, NewLine, SplitGraphDump] \<and>
     calls (world s3) = [Scheduled, LivenessComputed, ManagerBuilt,
                         Shrunk GraphB, Reset GraphB, SplitAsked GraphB] \<and>
     map startAddr (m_MemAllocList s3) = [0] \<and> map size_e (m_MemAllocList s3) = [100])"
proof -
  define w0 where "w0 = newSplitGraphManager exC \<lparr>getLocalMemSize = 500\<rparr>
     (liveAnaly_runOnModule exC (scheduler_runOnModule exC (world (exState 1000 1000))))"
  define t where "t = (exState 1000 1000)\<lparr>m_MemAllocList := [], world := w0\<rparr>"
  have w0: "calls w0 = [Scheduled, LivenessComputed, ManagerBuilt]" "curSize w0 GraphA = 100"
    "w0\<lparr>curSize := (curSize w0)(GraphB := 1000), origSize := (origSize w0)(GraphB := 1000)\<rparr> = w0"
    by (simp_all add: w0_def exC_fields exState_def exWorld_def)
  have I0: "exSizesBounded w0"
    by (simp add: w0_def exC_fields exState_def exWorld_def exSizesBounded_def)
  have t: "t\<lparr>errs := errs t @ [AllocateOrShrinkSize]\<rparr> =
      t\<lparr>world := w0\<lparr>curSize := (curSize w0)(GraphB := 1000), origSize := (origSize w0)(GraphB := 1000)\<rparr>,
        errs := [AllocateOrShrinkSize]\<rparr>"
    by (simp add: w0(3)) (simp add: t_def exState_def)
  obtain t2 where t2:
    "planSubGraph exC 500 (last [GraphA, GraphB]) (t\<lparr>errs := errs t @ [AllocateOrShrinkSize]\<rparr>)
       (butlast [GraphA, GraphB]) 0 = Some (Unallocated, t2, [GraphA])"
    and e2: "errs t2 = [AllocateOrShrinkSize,
                ShrinkArrowKb (toFloat (toFloat (of_int (sint (1000 :: 64 word))) / 1024)),
                UnableToAllocate]"
    and o2: "outs t2 = []"
    and c2: "calls (world t2) = [Scheduled, LivenessComputed, ManagerBuilt,
                         Shrunk GraphB, Reset GraphB, SplitAsked GraphB]"
    and a2: "curSize (world t2) GraphA = 100"
    unfolding t using ex_planB [where s = t and w = w0 and e = "[AllocateOrShrinkSize]" and wl = "[GraphA]"]
    by (auto simp: w0 t_def exState_def)
  define t3 where "t3 = t2\<lparr>outs := [NewLine, NewLine], errs := errs t2 @ [AllocateOrShrinkSize],
               m_MemAllocList := allocatedEntries exC GraphA (world t2)\<rparr>"
  have rest: "processWorklist exC 500 (t2\<lparr>outs := outs t2 @ [NewLine]\<rparr>) [GraphA] = Some t3"
    unfolding t3_def
    apply (subst processWorklist.simps)
    apply (simp add: Let_def ex_planA a2 o2)
    apply (subst processWorklist.simps)
    apply simp
    done
  note T = abandoned_subgraph_does_not_stop_the_pass
     [where C = exC and localMemSize = 500 and todo = "[GraphA, GraphB]" and t = t and ?t2.0 = t2
        and todo' = "[GraphA]" and ?t3.0 = t3 and ?t4.0 = t3
        and backend = "\<lparr>getLocalMemSize = 500\<rparr>" and ?s0.0 = "exState 1000 1000"
        and Inv = exSizesBounded and steps = exSteps and parts = exUnsplit]
  have D: "[GraphA, GraphB] \<noteq> [] \<and>
        planSubGraph exC 500 (last [GraphA, GraphB]) (t\<lparr>errs := errs t @ [AllocateOrShrinkSize]\<rparr>)
          (butlast [GraphA, GraphB]) 0 = Some (Unallocated, t2, [GraphA]) \<and>
        processWorklist exC 500 (t2\<lparr>outs := outs t2 @ [NewLine]\<rparr>) [GraphA] = Some t3"
    using t2 rest by simp
  from T D have step: "processWorklist exC 500 t [GraphA, GraphB] = Some t3"
    by blast
  have "processWorklist exC (getLocalMemSize \<lparr>getLocalMemSize = 500\<rparr>)
          ((exState 1000 1000)\<lparr>m_MemAllocList := [],
              world := newSplitGraphManager exC \<lparr>getLocalMemSize = 500\<rparr>
                         (liveAnaly_runOnModule exC (scheduler_runOnModule exC (world (exState 1000 1000))))\<rparr>)
          (getSplitGraphs exC (newSplitGraphManager exC \<lparr>getLocalMemSize = 500\<rparr>
                         (liveAnaly_runOnModule exC (scheduler_runOnModule exC (world (exState 1000 1000))))))
        = Some t3"
    using step by (simp add: t_def w0_def exC_fields)
  with T have run: "runOnModule exC (Some \<lparr>getLocalMemSize = 500\<rparr>) (exState 1000 1000) =
      Some (kModuleNoChanged, t3\<lparr>outs := outs t3 @ [SplitGraphDump]\<rparr>)"
    by blast
  show ?thesis
    unfolding run by (simp add: exC_wellFounded t3_def e2 c2 exC_allocated a2)
qed

section \<open>Termination of the planner loop\<close>

text \<open>
  Where the allocated size stays below \<open>2^63\<close>, the loop for a split graph ends.
  Let the local memory size be positive, and let \<open>Inv\<close> hold of the store at the
  start and be kept by \<open>shrinkSize\<close> and by a split after a reset. Suppose that on
  these stores the allocated size, read as a signed 64-bit number, is not negative;
  that \<open>shrinkSize\<close> either decreases the measure \<open>steps\<close> or leaves the memory
  usage and the live intervals as they are (the floor is reached); and that a split
  that returns a new split graph decreases the measure \<open>parts\<close>, which
  \<open>shrinkSize\<close> does not increase. Then the loop for the split graph ends, either
  with an allocation below the local memory size, which is then the entry list, or
  with the message that no memory could be allocated.
\<close>

lemma planSubGraph_terminates:
  fixes C :: "('w, 'p, 'v) Collaborators" and parts steps :: "'w \<Rightarrow> nat"
  assumes budget: "0 < localMemSize"
      and inv0: "Inv (world s)"
      and inv_shrink: "\<And>w. Inv w \<Longrightarrow> Inv (shrinkSize C spGraph w)"
      and inv_split: "\<And>w. Inv w \<Longrightarrow> Inv (snd (splitNewSubGraph C spGraph (resetToOrigSize C spGraph w)))"
      and range: "\<And>w. Inv w \<Longrightarrow> 0 \<le> sint (allocatedPeak C spGraph w)"
      and shrink_wf: "\<And>w. Inv w \<Longrightarrow>
             steps (shrinkSize C spGraph w) < steps w \<or>
             getMemUsage C spGraph (shrinkSize C spGraph w) = getMemUsage C spGraph w \<and>
             getLiveIntervals C (shrinkSize C spGraph w) = getLiveIntervals C w"
      and shrink_parts: "\<And>w. Inv w \<Longrightarrow> parts (shrinkSize C spGraph w) \<le> parts w"
      and split_parts: "\<And>w g w'. Inv w \<Longrightarrow>
             splitNewSubGraph C spGraph (resetToOrigSize C spGraph w) = (Some g, w') \<Longrightarrow>
             parts w' < parts w"
  shows "\<exists>outcome s' worklist'.
           planSubGraph C localMemSize spGraph s worklist prevMinSize = Some (outcome, s', worklist') \<and>
           (outcome = Fits \<longrightarrow> allocatedPeak C spGraph (world s') < localMemSize \<and>
                                m_MemAllocList s' = allocatedEntries C spGraph (world s')) \<and>
           (outcome = Unallocated \<longrightarrow> last (errs s') = UnableToAllocate)"
proof -
  obtain r where r: "planSubGraph C localMemSize spGraph s worklist prevMinSize = Some r"
    using planner_loop_returns [of localMemSize Inv C spGraph steps parts s worklist prevMinSize]
      assms by blast
  obtain outcome s' worklist' where "r = (outcome, s', worklist')" by (cases r)
  with r planSubGraph_result [OF r] show ?thesis by simp
qed

lemma planSubGraph_terminates_example:
  "\<exists>outcome s' worklist'.
     planSubGraph exC 500 GraphB (exState 2000 2000) [GraphA] 0 = Some (outcome, s', worklist') \<and>
     (outcome = Fits \<longrightarrow> allocatedPeak exC GraphB (world s') < 500 \<and>
                          m_MemAllocList s' = allocatedEntries exC GraphB (world s')) \<and>
     (outcome = Unallocated \<longrightarrow> last (errs s') = UnableToAllocate)"
proof (rule planSubGraph_terminates [where Inv = exInv
         and steps = "\<lambda>w. unat (curSize w GraphB)" and parts = "\<lambda>w. unat (origSize w GraphB)"])
  show "(0 :: 64 word) < 500" by simp
  show "exInv (world (exState 2000 2000))" by (simp add: exInv_def exState_def exWorld_def)
next
  fix w assume I: "exInv w"
  show "exInv (shrinkSize exC GraphB w)"
    using I half_le [of "curSize w GraphB"] by (auto simp: exInv_def exC_fields)
  show "exInv (snd (splitNewSubGraph exC GraphB (resetToOrigSize exC GraphB w)))"
    using I half_le [of "origSize w GraphB"] by (auto simp: exInv_def exC_fields)
  have "curSize w GraphB \<le> 2000" using I by (simp add: exInv_def)
  then have "curSize w GraphB < 16777216" by (rule le_less_trans) simp
  then show "0 \<le> sint (allocatedPeak exC GraphB w)"
    unfolding exC_allocated by (rule small_sint(1))
  show "unat (curSize (shrinkSize exC GraphB w) GraphB) < unat (curSize w GraphB) \<or>
        getMemUsage exC GraphB (shrinkSize exC GraphB w) = getMemUsage exC GraphB w \<and>
        getLiveIntervals exC (shrinkSize exC GraphB w) = getLiveIntervals exC w"
    using half_less [of "curSize w GraphB"] by (auto simp: exC_def)
  show "unat (origSize (shrinkSize exC GraphB w) GraphB) \<le> unat (origSize w GraphB)"
    by (simp add: exC_fields)
next
  fix w g w' assume I: "exInv w"
    and s: "splitNewSubGraph exC GraphB (resetToOrigSize exC GraphB w) = (Some g, w')"
  show "unat (origSize w' GraphB) < unat (origSize w GraphB)"
    using s half_less2 [of "origSize w GraphB"] by (auto simp: exC_fields split: if_splits)
qed

text \<open>
  Claim C9, evaluated on one split graph with one value of \<open>2^63\<close> bytes and a
  local memory size of 1024. \<open>shrinkSize\<close> leaves the store as it is (the floor is
  reached at once) and \<open>splitNewSubGraph\<close> returns no split graph, so the claim
  promises that the loop ends. Line 171 stores the allocated size, a
  \<^verbatim>\<open>uint64_t\<close>, in the \<^verbatim>\<open>int64_t prevMinSize\<close> of line 137, which becomes
  \<open>-2^63\<close>. From the second iteration on the allocation is the previous one, the
  case for which the comment of lines 154 and 155 announces a new split graph; but
  the quotient of line 156 is \<open>-1\<close>, the test fails, the split is never asked
  for, and the loop shrinks forever: \<open>planSubGraph\<close> does not return, and neither
  does the pass.
\<close>

theorem planner_loop_never_ends_on_huge_peak:
  "planSubGraph hugeC 1024 () (emptyState ()) [] 0 = None \<and>
   runOnModule hugeC (Some \<lparr>getLocalMemSize = 1024\<rparr>) (emptyState ()) = None \<and>
   (0 :: 64 word) < 1024 \<and>
   shrinkSize hugeC () () = () \<and>
   getMemUsage hugeC () (shrinkSize hugeC () ()) = getMemUsage hugeC () () \<and>
   splitNewSubGraph hugeC () (resetToOrigSize hugeC () ()) = (None, ()) \<and>
   allocatedPeak hugeC () () = 9223372036854775808 \<and>
   sint (allocatedPeak hugeC () ()) < 0 \<and>
   \<not> splitRequired hugeC 1024 () () (allocatedPeak hugeC () ())"
  using huge_loop_None [of "()" "emptyState ()" "[]"] huge_pass_diverges huge_ratio
  by (simp add: huge_peak splitRequired_def) (simp add: hugeC_def)

end
